theory Spec2Isabelle
  imports Complex_Main
begin

section \<open>Python values, exceptions and straight-line cells\<close>

text \<open>
  Both notebooks are sequences of cells; a cell is a sequence of statements run against the
  kernel's namespace. A statement either completes, updating the namespace, or raises; a
  raised exception ends the cell and leaves the namespace as the completed statements made
  it. Neither notebook contains a \<^verbatim>\<open>try\<close>, so an exception is only ever passed on.
\<close>

datatype exn =
    NameError string
  | IndexError
  | KeyError string
  | ValueError
  | LinAlgError
  | Raised string

type_synonym 's cmd = "'s \<Rightarrow> exn option \<times> 's"

definition bnd :: "exn + 'a \<Rightarrow> ('a \<Rightarrow> exn + 'b) \<Rightarrow> exn + 'b" where
  "bnd m f = (case m of Inl e \<Rightarrow> Inl e | Inr v \<Rightarrow> f v)"

definition rd :: "string \<Rightarrow> 'a option \<Rightarrow> exn + 'a" where
  "rd name v = (case v of None \<Rightarrow> Inl (NameError name) | Some x \<Rightarrow> Inr x)"

definition assign :: "('s \<Rightarrow> exn + 'a) \<Rightarrow> ('a \<Rightarrow> 's \<Rightarrow> 's) \<Rightarrow> 's cmd" where
  "assign rhs store s = (case rhs s of Inl e \<Rightarrow> (Some e, s) | Inr v \<Rightarrow> (None, store v s))"

fun first_item :: "'a list \<Rightarrow> exn + 'a" where
  "first_item [] = Inl IndexError"
| "first_item (d # ds) = Inr d"

definition item :: "('k \<rightharpoonup> 'a) \<Rightarrow> 'k \<Rightarrow> string \<Rightarrow> exn + 'a" where
  "item d k name = (case d k of None \<Rightarrow> Inl (KeyError name) | Some x \<Rightarrow> Inr x)"

fun block :: "'s cmd list \<Rightarrow> 's cmd" where
  "block [] s = (None, s)"
| "block (c # cs) s = (case c s of (None, s') \<Rightarrow> block cs s' | (Some e, s') \<Rightarrow> (Some e, s'))"

fun for_each :: "'a list \<Rightarrow> ('a \<Rightarrow> 's cmd) \<Rightarrow> 's cmd" where
  "for_each [] body s = (None, s)"
| "for_each (x # xs) body s =
     (case body x s of (None, s') \<Rightarrow> for_each xs body s' | (Some e, s') \<Rightarrow> (Some e, s'))"

section \<open>The array operations the rank notebook uses\<close>

text \<open>
  A 2-D array is the list of its rows, a 1-D array a list. The entries are float64 in the
  notebook; here they are real numbers and the arithmetic is exact, so rounding is outside
  this development. Shapes are checked where numpy checks them.
\<close>

type_synonym vec = "real list"
type_synonym matrix = "real list list"

definition nrows :: "matrix \<Rightarrow> nat" where
  "nrows M = length M"

definition ncols :: "matrix \<Rightarrow> nat" where
  "ncols M = (case M of [] \<Rightarrow> 0 | r # _ \<Rightarrow> length r)"

definition is_mat :: "nat \<Rightarrow> nat \<Rightarrow> matrix \<Rightarrow> bool" where
  "is_mat m n M = (length M = m \<and> list_all (\<lambda>r. length r = n) M)"

text \<open>\<^verbatim>\<open>U[:, :k]\<close>, \<^verbatim>\<open>Vt[:k, :]\<close> and \<^verbatim>\<open>S[:k]\<close>; a slice past the end is cut, not an error.\<close>

definition cols_upto :: "nat \<Rightarrow> matrix \<Rightarrow> matrix" where
  "cols_upto k M = map (take k) M"

definition rows_upto :: "nat \<Rightarrow> matrix \<Rightarrow> matrix" where
  "rows_upto k M = take k M"

text \<open>\<^verbatim>\<open>np.diag(v)\<close> of a 1-D array: a fresh square array with \<open>v\<close> on its diagonal.\<close>

definition diag :: "vec \<Rightarrow> matrix" where
  "diag v = map (\<lambda>i. map (\<lambda>j. if i = j then v ! i else 0) [0..<length v]) [0..<length v]"

definition dot :: "vec \<Rightarrow> vec \<Rightarrow> real" where
  "dot u v = sum_list (map2 (*) u v)"

definition col :: "matrix \<Rightarrow> nat \<Rightarrow> vec" where
  "col M j = map (\<lambda>r. r ! j) M"

definition mm :: "matrix \<Rightarrow> matrix \<Rightarrow> matrix" where
  "mm A B = map (\<lambda>r. map (\<lambda>j. dot r (col B j)) [0..<ncols B]) A"

text \<open>\<^verbatim>\<open>A @ B\<close> raises ValueError unless the columns of \<open>A\<close> are as many as the rows of \<open>B\<close>.\<close>

definition matmul :: "matrix \<Rightarrow> matrix \<Rightarrow> exn + matrix" where
  "matmul A B = (if ncols A = nrows B then Inr (mm A B) else Inl ValueError)"

definition msub :: "matrix \<Rightarrow> matrix \<Rightarrow> matrix" where
  "msub A B = map2 (map2 (-)) A B"

text \<open>
  \<^verbatim>\<open>A - B\<close> on arrays of one shape is entrywise. On two different shapes numpy broadcasts
  when it can and raises ValueError when it cannot; the notebook only ever subtracts arrays
  of one shape, and here every other pair of shapes is the ValueError.
\<close>

definition subtract :: "matrix \<Rightarrow> matrix \<Rightarrow> exn + matrix" where
  "subtract A B =
     (if nrows A = nrows B \<and> ncols A = ncols B then Inr (msub A B) else Inl ValueError)"

text \<open>\<^verbatim>\<open>np.linalg.norm(M, 'fro')\<close>: the square root of the sum of the squared entries.\<close>

definition norm_fro :: "matrix \<Rightarrow> real" where
  "norm_fro M = sqrt (sum_list (map (\<lambda>r. sum_list (map (\<lambda>x. x\<^sup>2) r)) M))"

section \<open>What the notebooks take from their libraries\<close>

text \<open>
  What a notebook calls and does not compute itself is an argument of the model. Of numpy:
  seeding the global generator, drawing a matrix from it, and the singular value
  decomposition, which can fail to converge.
\<close>

record 'r numpy =
  seed :: "nat \<Rightarrow> 'r"
  rand :: "'r \<Rightarrow> nat \<Rightarrow> nat \<Rightarrow> matrix \<times> 'r"
  svd :: "matrix \<Rightarrow> exn + (matrix \<times> vec \<times> matrix)"

text \<open>
  A Python string is a list of code points; \<open>str\<close> reads an ASCII literal. The objects the
  RAG notebook builds without running anything are data: the three loaders, the splitter,
  the model and prompt settings, the retriever that \<^verbatim>\<open>db.as_retriever\<close> returns and the
  chain that \<^verbatim>\<open>RetrievalQA.from_chain_type\<close> returns.
\<close>

type_synonym ustr = "nat list"

definition str :: "string \<Rightarrow> ustr" where
  "str cs = map of_char cs"

datatype loader =
    PyPDFLoader ustr
  | GenericLoader "ustr list" ustr
  | WebBaseLoader ustr

record splitter =
  chunk_size :: nat
  chunk_overlap :: nat

record embeddings_spec =
  model_name :: ustr
  device :: ustr
  normalize_embeddings :: bool

record quantization =
  load_in_4bit :: bool
  bnb_4bit_compute_dtype :: ustr
  bnb_4bit_quant_type :: ustr
  bnb_4bit_use_double_quant :: bool

record pipeline_spec =
  model_id :: ustr
  task :: ustr
  torch_dtype :: ustr
  trust_remote_code :: bool
  device_map :: ustr
  quantization_config :: quantization
  max_new_tokens :: nat
  temperature :: real
  top_p :: real
  do_sample :: bool
  repetition_penalty :: real

record prompt_template =
  template :: ustr
  input_variables :: "ustr list"

record 'v retriever =
  vectorstore :: 'v
  search_kwargs :: "string \<rightharpoonup> nat"

record ('l, 'v) retrieval_qa =
  qa_llm :: 'l
  chain_type :: ustr
  qa_retriever :: "'v retriever"
  return_source_documents :: bool
  qa_prompt :: prompt_template

datatype 'd rval = RStr ustr | RDocs "'d list"

definition as_retriever :: "'v \<Rightarrow> (string \<rightharpoonup> nat) \<Rightarrow> 'v retriever" where
  "as_retriever db kw = \<lparr>vectorstore = db, search_kwargs = kw\<rparr>"

definition from_chain_type ::
  "'l \<Rightarrow> ustr \<Rightarrow> 'v retriever \<Rightarrow> bool \<Rightarrow> prompt_template \<Rightarrow> ('l, 'v) retrieval_qa" where
  "from_chain_type l ct r rs p =
     \<lparr>qa_llm = l, chain_type = ct, qa_retriever = r, return_source_documents = rs,
      qa_prompt = p\<rparr>"

text \<open>
  What runs inside the libraries is an argument, and every such call can raise: loading
  documents, splitting them, loading the embedding model and embedding a sentence,
  sklearn's cosine similarity, building the Chroma store and searching it, loading the
  language model, and calling the chain. The types of documents \<open>'d\<close>, of the embedding
  model \<open>'e\<close>, of the store \<open>'v\<close> and of the language model \<open>'l\<close> are the libraries' own.
\<close>

record ('d, 'e, 'v, 'l) langchain =
  load :: "loader \<Rightarrow> exn + 'd list"
  page_content :: "'d \<Rightarrow> ustr"
  split_documents :: "splitter \<Rightarrow> 'd list \<Rightarrow> exn + 'd list"
  HuggingFaceEmbeddings :: "embeddings_spec \<Rightarrow> exn + 'e"
  embed_query :: "'e \<Rightarrow> ustr \<Rightarrow> exn + vec"
  cosine_similarity :: "matrix \<Rightarrow> matrix \<Rightarrow> exn + matrix"
  from_documents :: "'d list \<Rightarrow> 'e \<Rightarrow> exn + 'v"
  similarity_search_with_score :: "'v \<Rightarrow> ustr \<Rightarrow> nat \<Rightarrow> exn + ('d \<times> real) list"
  similarity_search :: "'v \<Rightarrow> ustr \<Rightarrow> nat \<Rightarrow> exn + 'd list"
  from_model_id :: "pipeline_spec \<Rightarrow> exn + 'l"
  invoke :: "('l, 'v) retrieval_qa \<Rightarrow> (string \<rightharpoonup> ustr) \<Rightarrow> exn + (string \<rightharpoonup> 'd rval)"

section \<open>The kernel\<close>

datatype out_item =
    Text string
  | Arr nat matrix
  | Plot "nat list" "real list" string string string

datatype 'd shown_item =
    Shown ustr
  | ShownScored "'d \<times> real"
  | ShownArr matrix
  | Printed "'d rval"

text \<open>
  The state a cell runs against: numpy's global generator, the print precision set by
  \<^verbatim>\<open>np.set_printoptions\<close>, the variables of the rank notebook and what it has printed
  and plotted (\<open>out\<close>), the variables of the RAG notebook and what it has displayed and
  printed (\<open>shown\<close>). A variable is unbound until it is assigned. Each notebook runs in a
  kernel of its own; one state holds the variables of both, which is the most either
  notebook could see of the other.
\<close>

record ('r, 'd, 'e, 'v, 'l) kernel =
  rng :: 'r
  precision :: nat
  v_A :: "matrix option"
  v_U :: "matrix option"
  v_S :: "vec option"
  v_Vt :: "matrix option"
  v_k :: "nat option"
  v_S_k :: "matrix option"
  v_A_k :: "matrix option"
  v_error :: "real option"
  v_errors :: "real list option"
  v_ranks :: "nat list option"
  out :: "out_item list"
  v_fiel_dir :: "ustr option"
  v_loader :: "loader option"
  v_pages :: "'d list option"
  v_url :: "ustr option"
  v_save_dir :: "ustr option"
  v_video_docs :: "'d list option"
  v_news_docs :: "'d list option"
  v_text_splitter :: "splitter option"
  v_texts_chunks :: "'d list option"
  v_embedding_func :: "'e option"
  v_a :: "vec option"
  v_b :: "vec option"
  v_db :: "'v option"
  v_query :: "ustr option"
  v_docs :: "('d \<times> real) list option"
  v_MODEL_NAME :: "ustr option"
  v_quantization_config :: "quantization option"
  v_llm :: "'l option"
  v_template :: "ustr option"
  v_prompt :: "prompt_template option"
  v_qa_chain :: "('l, 'v) retrieval_qa option"
  v_result :: "(string \<rightharpoonup> 'd rval) option"
  shown :: "'d shown_item list"

type_synonym ('r, 'd, 'e, 'v, 'l) cell = "('r, 'd, 'e, 'v, 'l) kernel cmd"

text \<open>A kernel just started: nothing bound, nothing printed, numpy's default precision.\<close>

definition fresh :: "'r \<Rightarrow> ('r, 'd, 'e, 'v, 'l) kernel" where
  "fresh r = \<lparr>rng = r, precision = 8, v_A = None, v_U = None, v_S = None, v_Vt = None,
     v_k = None, v_S_k = None, v_A_k = None, v_error = None, v_errors = None, v_ranks = None,
     out = [], v_fiel_dir = None, v_loader = None, v_pages = None, v_url = None,
     v_save_dir = None, v_video_docs = None, v_news_docs = None, v_text_splitter = None,
     v_texts_chunks = None, v_embedding_func = None, v_a = None, v_b = None, v_db = None,
     v_query = None, v_docs = None, v_MODEL_NAME = None, v_quantization_config = None,
     v_llm = None, v_template = None, v_prompt = None, v_qa_chain = None, v_result = None,
     shown = []\<rparr>"

section \<open>The rank notebook\<close>

text \<open>
  Its first code cell only imports numpy and matplotlib; the library is an argument here and
  the imports are not modelled.
\<close>

definition print_text :: "string \<Rightarrow> ('r, 'd, 'e, 'v, 'l) cell" where
  "print_text t s = (None, s\<lparr>out := out s @ [Text t]\<rparr>)"

definition print_arr :: "(('r, 'd, 'e, 'v, 'l) kernel \<Rightarrow> exn + matrix) \<Rightarrow> ('r, 'd, 'e, 'v, 'l) cell" where
  "print_arr rhs s =
     (case rhs s of Inl e \<Rightarrow> (Some e, s)
      | Inr M \<Rightarrow> (None, s\<lparr>out := out s @ [Arr (precision s) M]\<rparr>))"

fun str_nat :: "nat \<Rightarrow> string" where
  "str_nat n =
     (if n < 10 then [''0123456789'' ! n] else str_nat (n div 10) @ [''0123456789'' ! (n mod 10)])"

text \<open>\<^verbatim>\<open>np.random.seed(0)\<close> and \<^verbatim>\<open>A = np.random.rand(m, n)\<close>.\<close>

definition random_seed :: "'r numpy \<Rightarrow> nat \<Rightarrow> ('r, 'd, 'e, 'v, 'l) cell" where
  "random_seed np n s = (None, s\<lparr>rng := seed np n\<rparr>)"

definition A_rand :: "'r numpy \<Rightarrow> nat \<Rightarrow> nat \<Rightarrow> ('r, 'd, 'e, 'v, 'l) cell" where
  "A_rand np m n s =
     (case rand np (rng s) m n of (M, r) \<Rightarrow> (None, s\<lparr>rng := r, v_A := Some M\<rparr>))"

text \<open>\<^verbatim>\<open>U, S, Vt = np.linalg.svd(A)\<close>.\<close>

definition USVt_svd :: "'r numpy \<Rightarrow> ('r, 'd, 'e, 'v, 'l) cell" where
  "USVt_svd np =
     assign (\<lambda>s. bnd (rd ''A'' (v_A s)) (svd np))
       (\<lambda>(U, S, Vt) s. s\<lparr>v_U := Some U, v_S := Some S, v_Vt := Some Vt\<rparr>)"

text \<open>\<^verbatim>\<open>S_k = np.diag(S[:k])\<close>.\<close>

definition S_k_diag :: "('r, 'd, 'e, 'v, 'l) cell" where
  "S_k_diag =
     assign (\<lambda>s. bnd (rd ''S'' (v_S s)) (\<lambda>S. bnd (rd ''k'' (v_k s)) (\<lambda>k. Inr (diag (take k S)))))
       (\<lambda>M s. s\<lparr>v_S_k := Some M\<rparr>)"

text \<open>\<^verbatim>\<open>A_k = U[:, :k] @ S_k @ Vt[:k, :]\<close>, the products taken from the left.\<close>

definition A_k_product :: "('r, 'd, 'e, 'v, 'l) cell" where
  "A_k_product =
     assign (\<lambda>s.
        bnd (rd ''U'' (v_U s)) (\<lambda>U. bnd (rd ''k'' (v_k s)) (\<lambda>k.
        bnd (rd ''S_k'' (v_S_k s)) (\<lambda>S_k. bnd (matmul (cols_upto k U) S_k) (\<lambda>P.
        bnd (rd ''Vt'' (v_Vt s)) (\<lambda>Vt. matmul P (rows_upto k Vt)))))))
       (\<lambda>M s. s\<lparr>v_A_k := Some M\<rparr>)"

text \<open>\<^verbatim>\<open>error = np.linalg.norm(A - A_k, 'fro')\<close>.\<close>

definition error_norm :: "('r, 'd, 'e, 'v, 'l) cell" where
  "error_norm =
     assign (\<lambda>s.
        bnd (rd ''A'' (v_A s)) (\<lambda>A. bnd (rd ''A_k'' (v_A_k s)) (\<lambda>A_k.
        bnd (subtract A A_k) (\<lambda>D. Inr (norm_fro D)))))
       (\<lambda>e s. s\<lparr>v_error := Some e\<rparr>)"

text \<open>\<^verbatim>\<open>errors.append(error)\<close>.\<close>

definition errors_append :: "('r, 'd, 'e, 'v, 'l) cell" where
  "errors_append =
     assign (\<lambda>s.
        bnd (rd ''errors'' (v_errors s)) (\<lambda>es. bnd (rd ''error'' (v_error s)) (\<lambda>e.
        Inr (es @ [e]))))
       (\<lambda>es s. s\<lparr>v_errors := Some es\<rparr>)"

text \<open>The loop variable is bound at the start of every round.\<close>

definition bind_k :: "nat \<Rightarrow> ('r, 'd, 'e, 'v, 'l) cell" where
  "bind_k k s = (None, s\<lparr>v_k := Some k\<rparr>)"

text \<open>
  The second code cell: a 5x5 matrix, its decomposition, and the approximations of rank 1
  and 3, printed. The matrix is printed before the print precision is set.
\<close>

definition body_5x5 :: "nat \<Rightarrow> ('r, 'd, 'e, 'v, 'l) cell" where
  "body_5x5 k =
     block [bind_k k, S_k_diag, A_k_product,
       print_text (''Rank '' @ str_nat k @ '' approximation:''),
       print_arr (\<lambda>s. rd ''A_k'' (v_A_k s)),
       print_text [CHR 0x0A, CHR 0x0A]]"

definition cell_5x5 :: "'r numpy \<Rightarrow> ('r, 'd, 'e, 'v, 'l) cell" where
  "cell_5x5 np =
     block [random_seed np 0, A_rand np 5 5,
       print_text ''full-rank = Original Matrix A:'',
       print_arr (\<lambda>s. rd ''A'' (v_A s)),
       print_text [CHR 0x0A, CHR 0x0A],
       USVt_svd np,
       (\<lambda>s. (None, s\<lparr>precision := 2\<rparr>)),
       for_each [1, 3] body_5x5]"

text \<open>
  The third code cell: a 10x10 matrix, its decomposition, the error of every rank from 1 to
  10, and the plot of the errors. \<^verbatim>\<open>plt.plot\<close> raises ValueError when its two lists
  differ in length.
\<close>

definition body_10x10 :: "nat \<Rightarrow> ('r, 'd, 'e, 'v, 'l) cell" where
  "body_10x10 k = block [bind_k k, S_k_diag, A_k_product, error_norm, errors_append]"

definition plot_errors :: "('r, 'd, 'e, 'v, 'l) cell" where
  "plot_errors s =
     (case bnd (rd ''ranks'' (v_ranks s)) (\<lambda>rs. bnd (rd ''errors'' (v_errors s)) (\<lambda>es.
        if length rs = length es
        then Inr (Plot rs es ''Error of Low Rank Approximations'' ''Rank k''
                    ''Frobenius Norm of the Error'')
        else Inl ValueError)) of
        Inl e \<Rightarrow> (Some e, s)
      | Inr p \<Rightarrow> (None, s\<lparr>out := out s @ [p]\<rparr>))"

definition loop_10x10 :: "('r, 'd, 'e, 'v, 'l) cell" where
  "loop_10x10 s =
     (case rd ''ranks'' (v_ranks s) of Inl e \<Rightarrow> (Some e, s)
      | Inr rs \<Rightarrow> for_each rs body_10x10 s)"

definition cell_10x10 :: "'r numpy \<Rightarrow> ('r, 'd, 'e, 'v, 'l) cell" where
  "cell_10x10 np =
     block [random_seed np 0, A_rand np 10 10,
       USVt_svd np,
       (\<lambda>s. (None, s\<lparr>v_errors := Some []\<rparr>)),
       (\<lambda>s. (None, s\<lparr>v_ranks := Some [1..<11]\<rparr>)),
       loop_10x10,
       plot_errors]"

text \<open>The notebook: its two working cells in order, the second only if the first completes.\<close>

definition rank_notebook :: "'r numpy \<Rightarrow> ('r, 'd, 'e, 'v, 'l) cell" where
  "rank_notebook np = block [cell_5x5 np, cell_10x10 np]"

text \<open>The approximation of rank \<open>k\<close> and its error, as the formulas of the notebook.\<close>

definition approx :: "matrix \<Rightarrow> vec \<Rightarrow> matrix \<Rightarrow> nat \<Rightarrow> matrix" where
  "approx U S Vt k = mm (mm (cols_upto k U) (diag (take k S))) (rows_upto k Vt)"

definition approx_error :: "matrix \<Rightarrow> matrix \<Rightarrow> vec \<Rightarrow> matrix \<Rightarrow> nat \<Rightarrow> real" where
  "approx_error A U S Vt k = norm_fro (msub A (approx U S Vt k))"

section \<open>The RAG notebook\<close>

text \<open>
  Every cell begins with imports, which bind the names of the library and are not
  modelled. The value of a cell's last expression is displayed; indexing an empty list
  raises IndexError. The literals that are not ASCII are written as their code points.
\<close>

definition sentence_a :: ustr where
  "sentence_a = [31361, 35186, 24335, 30332, 34920, 65281, 34315, 26524, 25512] @ str '' 2 '' @
     [27454] @ str '' M3 MacBook Air'' @ [65292, 24375, 35519] @ str '' AI '' @
     [12289, 36938, 25138, 25928, 33021, 30342, 24375, 21270]"

definition sentence_b :: ustr where
  "sentence_b = [34315, 26524, 26368, 26032] @ str ''M3'' @ [29256] @ str ''MacBook Air'' @
     [31361, 35186, 30331, 22580, 65281] @ str ''6'' @ [20142, 40670, 19979, 25918] @ str ''1'' @
     [25216, 34899, 19981, 28466, 20729] @ str '' M2'' @ [29256, 36996, 38477] @ str ''3000'' @
     [20803]"

definition query_text :: ustr where
  "query_text = [20160, 40636, 26159] @ str '' LLM '' @ [27169, 22411, 65311]"

definition reply_label :: ustr where
  "reply_label = [22238, 35206, 65306]"

definition sources_label :: ustr where
  "sources_label = [21443, 32771, 36039, 35338, 65306]"

definition template_text :: ustr where
  "template_text = [10] @ str ''<s>'' @
     [10, 35531, 20320, 20570, 28858, 19968, 20491, 22823, 22411, 35486, 35328, 27169, 22411,
      30340, 23560, 23478, 65292, 20006, 26681, 25818, 19979, 26041, 25152, 25552, 20379, 30340,
      36039, 35338, 65292, 20358, 22238, 31572, 20351, 29992, 32773, 30340, 25552, 21839, 12290,
      10, 10] @ str ''[INST]'' @ [10] @ str ''{context}'' @ [10, 10] @ str ''{question}'' @
     [10] @ str ''[/INST]'' @ [10]"

definition youtube_url :: ustr where
  "youtube_url = str ''https://www.youtube.com/watch?v=jGwO_UgTS7I''"

definition bnext_url :: ustr where
  "bnext_url = str ''https://www.bnext.com.tw/article/76864/what-is-the-meaning-of-llm''"

definition stella :: embeddings_spec where
  "stella = \<lparr>model_name = str ''infgrad/stella-base-zh-v3-1792d'', device = str ''cuda'',
     normalize_embeddings = True\<rparr>"

definition breeze :: "ustr \<Rightarrow> quantization \<Rightarrow> pipeline_spec" where
  "breeze m q =
     \<lparr>model_id = m, task = str ''text-generation'', torch_dtype = str ''float16'',
      trust_remote_code = True, device_map = str ''auto'', quantization_config = q,
      max_new_tokens = 1024, temperature = 1 / 10000, top_p = 95 / 100, do_sample = True,
      repetition_penalty = 115 / 100\<rparr>"

definition nf4 :: quantization where
  "nf4 = \<lparr>load_in_4bit = True, bnb_4bit_compute_dtype = str ''float16'',
     bnb_4bit_quant_type = str ''nf4'', bnb_4bit_use_double_quant = True\<rparr>"

text \<open>1.1: a PDF, from a path that is a placeholder.\<close>

definition cell_pdf :: "('d, 'e, 'v, 'l) langchain \<Rightarrow> ('r, 'd, 'e, 'v, 'l) cell" where
  "cell_pdf lc =
     block [
       assign (\<lambda>s. Inr (str ''PDF_DIRECTORY'')) (\<lambda>x s. s\<lparr>v_fiel_dir := Some x\<rparr>),
       assign (\<lambda>s. bnd (rd ''fiel_dir'' (v_fiel_dir s)) (\<lambda>p. Inr (PyPDFLoader p)))
         (\<lambda>x s. s\<lparr>v_loader := Some x\<rparr>),
       assign (\<lambda>s. bnd (rd ''loader'' (v_loader s)) (load lc)) (\<lambda>x s. s\<lparr>v_pages := Some x\<rparr>)]"

text \<open>1.2: the transcript of a video, through OpenAI's Whisper.\<close>

definition cell_youtube :: "('d, 'e, 'v, 'l) langchain \<Rightarrow> ('r, 'd, 'e, 'v, 'l) cell" where
  "cell_youtube lc =
     block [
       assign (\<lambda>s. Inr youtube_url) (\<lambda>x s. s\<lparr>v_url := Some x\<rparr>),
       assign (\<lambda>s. Inr (str ''docs/youtube/'')) (\<lambda>x s. s\<lparr>v_save_dir := Some x\<rparr>),
       assign (\<lambda>s. bnd (rd ''url'' (v_url s)) (\<lambda>u. bnd (rd ''save_dir'' (v_save_dir s)) (\<lambda>d.
                 Inr (GenericLoader [u] d))))
         (\<lambda>x s. s\<lparr>v_loader := Some x\<rparr>),
       assign (\<lambda>s. bnd (rd ''loader'' (v_loader s)) (load lc))
         (\<lambda>x s. s\<lparr>v_video_docs := Some x\<rparr>),
       assign (\<lambda>s. bnd (rd ''video_docs'' (v_video_docs s)) (\<lambda>ds. bnd (first_item ds) (\<lambda>d.
                 Inr (Shown (take 500 (page_content lc d))))))
         (\<lambda>x s. s\<lparr>shown := shown s @ [x]\<rparr>)]"

text \<open>1.3: an article on the web.\<close>

definition cell_web :: "('d, 'e, 'v, 'l) langchain \<Rightarrow> ('r, 'd, 'e, 'v, 'l) cell" where
  "cell_web lc =
     block [
       assign (\<lambda>s. Inr bnext_url) (\<lambda>x s. s\<lparr>v_url := Some x\<rparr>),
       assign (\<lambda>s. bnd (rd ''url'' (v_url s)) (\<lambda>u. Inr (WebBaseLoader u)))
         (\<lambda>x s. s\<lparr>v_loader := Some x\<rparr>),
       assign (\<lambda>s. bnd (rd ''loader'' (v_loader s)) (load lc))
         (\<lambda>x s. s\<lparr>v_news_docs := Some x\<rparr>),
       assign (\<lambda>s. bnd (rd ''news_docs'' (v_news_docs s)) (\<lambda>ds. bnd (first_item ds) (\<lambda>d.
                 Inr (Shown (take 100 (page_content lc d))))))
         (\<lambda>x s. s\<lparr>shown := shown s @ [x]\<rparr>)]"

text \<open>2: splitting.\<close>

definition cell_split :: "('d, 'e, 'v, 'l) langchain \<Rightarrow> ('r, 'd, 'e, 'v, 'l) cell" where
  "cell_split lc =
     block [
       assign (\<lambda>s. Inr \<lparr>chunk_size = 200, chunk_overlap = 30\<rparr>)
         (\<lambda>x s. s\<lparr>v_text_splitter := Some x\<rparr>),
       assign (\<lambda>s. bnd (rd ''text_splitter'' (v_text_splitter s)) (\<lambda>sp.
                 bnd (rd ''news_docs'' (v_news_docs s)) (split_documents lc sp)))
         (\<lambda>x s. s\<lparr>v_texts_chunks := Some x\<rparr>)]"

text \<open>3.1: the embedding model, and the similarity of two headlines.\<close>

definition cell_embed :: "('d, 'e, 'v, 'l) langchain \<Rightarrow> ('r, 'd, 'e, 'v, 'l) cell" where
  "cell_embed lc =
     block [
       assign (\<lambda>s. HuggingFaceEmbeddings lc stella)
         (\<lambda>x s. s\<lparr>v_embedding_func := Some x\<rparr>),
       assign (\<lambda>s. bnd (rd ''embedding_func'' (v_embedding_func s)) (\<lambda>e.
                 embed_query lc e sentence_a))
         (\<lambda>x s. s\<lparr>v_a := Some x\<rparr>),
       assign (\<lambda>s. bnd (rd ''embedding_func'' (v_embedding_func s)) (\<lambda>e.
                 embed_query lc e sentence_b))
         (\<lambda>x s. s\<lparr>v_b := Some x\<rparr>),
       assign (\<lambda>s. bnd (rd ''a'' (v_a s)) (\<lambda>a. bnd (rd ''b'' (v_b s)) (\<lambda>b.
                 bnd (cosine_similarity lc [a] [b]) (\<lambda>m. Inr (ShownArr m)))))
         (\<lambda>x s. s\<lparr>shown := shown s @ [x]\<rparr>)]"

text \<open>3.2: the vector store, and a first search with the store's default of 4 results.\<close>

definition cell_store :: "('d, 'e, 'v, 'l) langchain \<Rightarrow> ('r, 'd, 'e, 'v, 'l) cell" where
  "cell_store lc =
     block [
       assign (\<lambda>s. bnd (rd ''texts_chunks'' (v_texts_chunks s)) (\<lambda>cs.
                 bnd (rd ''embedding_func'' (v_embedding_func s)) (from_documents lc cs)))
         (\<lambda>x s. s\<lparr>v_db := Some x\<rparr>),
       assign (\<lambda>s. Inr query_text) (\<lambda>x s. s\<lparr>v_query := Some x\<rparr>),
       assign (\<lambda>s. bnd (rd ''db'' (v_db s)) (\<lambda>db. bnd (rd ''query'' (v_query s)) (\<lambda>q.
                 similarity_search_with_score lc db q 4)))
         (\<lambda>x s. s\<lparr>v_docs := Some x\<rparr>),
       assign (\<lambda>s. bnd (rd ''docs'' (v_docs s)) (\<lambda>ds. bnd (first_item ds) (\<lambda>d.
                 Inr (ShownScored d))))
         (\<lambda>x s. s\<lparr>shown := shown s @ [x]\<rparr>)]"

text \<open>4: the language model and the prompt.\<close>

definition cell_llm :: "('d, 'e, 'v, 'l) langchain \<Rightarrow> ('r, 'd, 'e, 'v, 'l) cell" where
  "cell_llm lc =
     block [
       assign (\<lambda>s. Inr (str ''MediaTek-Research/Breeze-7B-Instruct-v0_1''))
         (\<lambda>x s. s\<lparr>v_MODEL_NAME := Some x\<rparr>),
       assign (\<lambda>s. Inr nf4)
         (\<lambda>x s. s\<lparr>v_quantization_config := Some x\<rparr>),
       assign (\<lambda>s. bnd (rd ''MODEL_NAME'' (v_MODEL_NAME s)) (\<lambda>m.
                 bnd (rd ''quantization_config'' (v_quantization_config s)) (\<lambda>q.
                 from_model_id lc (breeze m q))))
         (\<lambda>x s. s\<lparr>v_llm := Some x\<rparr>),
       assign (\<lambda>s. Inr template_text) (\<lambda>x s. s\<lparr>v_template := Some x\<rparr>),
       assign (\<lambda>s. bnd (rd ''template'' (v_template s)) (\<lambda>t.
                 Inr \<lparr>template = t, input_variables = [str ''context'', str ''question'']\<rparr>))
         (\<lambda>x s. s\<lparr>v_prompt := Some x\<rparr>)]"

text \<open>The last cell: the chain over the store's retriever, the question, and the prints.\<close>

definition cell_qa :: "('d, 'e, 'v, 'l) langchain \<Rightarrow> ('r, 'd, 'e, 'v, 'l) cell" where
  "cell_qa lc =
     block [
       assign (\<lambda>s. bnd (rd ''llm'' (v_llm s)) (\<lambda>l. bnd (rd ''db'' (v_db s)) (\<lambda>db.
                 bnd (rd ''prompt'' (v_prompt s)) (\<lambda>p.
                 Inr (from_chain_type l (str ''stuff'') (as_retriever db [''k'' \<mapsto> 2]) True p)))))
         (\<lambda>x s. s\<lparr>v_qa_chain := Some x\<rparr>),
       assign (\<lambda>s. bnd (rd ''qa_chain'' (v_qa_chain s)) (\<lambda>c. bnd (rd ''query'' (v_query s)) (\<lambda>q.
                 invoke lc c [''query'' \<mapsto> q])))
         (\<lambda>x s. s\<lparr>v_result := Some x\<rparr>),
       assign (\<lambda>s. Inr (Printed (RStr reply_label))) (\<lambda>x s. s\<lparr>shown := shown s @ [x]\<rparr>),
       assign (\<lambda>s. bnd (rd ''result'' (v_result s)) (\<lambda>r. bnd (item r ''result'' ''result'') (\<lambda>v.
                 Inr (Printed v))))
         (\<lambda>x s. s\<lparr>shown := shown s @ [x]\<rparr>),
       assign (\<lambda>s. Inr (Printed (RStr sources_label))) (\<lambda>x s. s\<lparr>shown := shown s @ [x]\<rparr>),
       assign (\<lambda>s. bnd (rd ''result'' (v_result s)) (\<lambda>r.
                 bnd (item r ''source_documents'' ''source_documents'') (\<lambda>v. Inr (Printed v))))
         (\<lambda>x s. s\<lparr>shown := shown s @ [x]\<rparr>)]"

text \<open>
  The pipeline is the cells from the web article on; the notebook is the two other loads
  and then the pipeline, each cell run only if the one before completed.
\<close>

definition pipeline :: "('d, 'e, 'v, 'l) langchain \<Rightarrow> ('r, 'd, 'e, 'v, 'l) cell" where
  "pipeline lc =
     block [cell_web lc, cell_split lc, cell_embed lc, cell_store lc, cell_llm lc, cell_qa lc]"

definition rag_notebook :: "('d, 'e, 'v, 'l) langchain \<Rightarrow> ('r, 'd, 'e, 'v, 'l) cell" where
  "rag_notebook lc = block [cell_pdf lc, cell_youtube lc, pipeline lc]"

section \<open>What the libraries promise\<close>

text \<open>
  The libraries' documented behaviour, each clause a hypothesis of the theorems that need
  it. A retriever asks its store for \<open>k\<close> documents, 4 when no \<open>k\<close> was given; a search
  for \<open>k\<close> documents returns at most \<open>k\<close>; a RetrievalQA chain that returns retrieves
  with its retriever for the question under \<^verbatim>\<open>"query"\<close>, puts the model's answer under
  \<^verbatim>\<open>"result"\<close> and, when asked for them, the retrieved documents under
  \<^verbatim>\<open>"source_documents"\<close>.
\<close>

definition search_k :: "'v retriever \<Rightarrow> nat" where
  "search_k r = (case search_kwargs r ''k'' of None \<Rightarrow> 4 | Some k \<Rightarrow> k)"

definition search_contract :: "('d, 'e, 'v, 'l) langchain \<Rightarrow> bool" where
  "search_contract lc \<longleftrightarrow>
     (\<forall>v q k ds. similarity_search lc v q k = Inr ds \<longrightarrow> length ds \<le> k)"

definition retrieval_qa_contract :: "('d, 'e, 'v, 'l) langchain \<Rightarrow> bool" where
  "retrieval_qa_contract lc \<longleftrightarrow>
     (\<forall>c inputs res. invoke lc c inputs = Inr res \<longrightarrow>
        (\<exists>q ans ds. inputs ''query'' = Some q \<and>
           similarity_search lc (vectorstore (qa_retriever c)) q (search_k (qa_retriever c)) = Inr ds \<and>
           res ''result'' = Some (RStr ans) \<and>
           (return_source_documents c \<longrightarrow> res ''source_documents'' = Some (RDocs ds))))"

text \<open>
  Of \<^verbatim>\<open>np.linalg.svd\<close> on a square matrix of size \<open>n\<close>: the shapes of the three factors;
  and, in exact arithmetic, that the columns of \<open>U\<close> and the rows of \<open>Vt\<close> are orthonormal,
  that \<open>A = U diag(S) Vt\<close>, and that the singular values are not negative and in
  descending order.
\<close>

definition svd_shapes :: "nat \<Rightarrow> matrix \<Rightarrow> vec \<Rightarrow> matrix \<Rightarrow> bool" where
  "svd_shapes n U S Vt \<longleftrightarrow> is_mat n n U \<and> length S = n \<and> is_mat n n Vt"

definition orthonormal :: "vec list \<Rightarrow> bool" where
  "orthonormal vs \<longleftrightarrow>
     (\<forall>i<length vs. \<forall>j<length vs. dot (vs ! i) (vs ! j) = (if i = j then 1 else 0))"

definition exact_svd :: "nat \<Rightarrow> matrix \<Rightarrow> matrix \<Rightarrow> vec \<Rightarrow> matrix \<Rightarrow> bool" where
  "exact_svd n A U S Vt \<longleftrightarrow>
     is_mat n n A \<and> svd_shapes n U S Vt \<and>
     orthonormal (map (col U) [0..<n]) \<and> orthonormal Vt \<and>
     A = mm (mm U (diag S)) Vt"

definition singular_values :: "vec \<Rightarrow> bool" where
  "singular_values S \<longleftrightarrow> list_all (\<lambda>x. 0 \<le> x) S \<and> sorted_wrt (\<lambda>x y. y \<le> x) S"

text \<open>
  A matrix has rank at most \<open>k\<close> when it is the product of a matrix with \<open>k\<close> columns and
  a matrix with \<open>k\<close> rows. The rank of a matrix with the singular values \<open>S\<close> is the
  number of those that are not zero, as the notebook's text says.
\<close>

definition rank_at_most :: "nat \<Rightarrow> matrix \<Rightarrow> bool" where
  "rank_at_most k M \<longleftrightarrow> (\<exists>B C. is_mat (nrows M) k B \<and> is_mat k (ncols M) C \<and> M = mm B C)"

definition rank_of :: "vec \<Rightarrow> nat" where
  "rank_of S = length (filter (\<lambda>x. x \<noteq> 0) S)"

section \<open>What each notebook can see\<close>

text \<open>
  The part of the kernel the rank notebook reads or writes, and the part the RAG notebook
  reads or writes; \<open>with_rank t s\<close> is \<open>s\<close> with the rank notebook's part taken from
  \<open>t\<close>, and \<open>with_rag t s\<close> is \<open>s\<close> with the RAG notebook's part taken from \<open>t\<close>. A
  command commutes with such a replacement when running it after the replacement is
  running it before: same outcome, and the replaced part still replaced.
\<close>

definition rank_view where
  "rank_view (s :: ('r, 'd, 'e, 'v, 'l) kernel) =
     ((rng s, precision s, out s), (v_A s, v_U s, v_S s, v_Vt s),
      (v_k s, v_S_k s, v_A_k s, v_error s, v_errors s, v_ranks s))"

definition rag_view where
  "rag_view (s :: ('r, 'd, 'e, 'v, 'l) kernel) =
     ((v_fiel_dir s, v_loader s, v_pages s, v_url s, v_save_dir s, v_video_docs s),
      (v_news_docs s, v_text_splitter s, v_texts_chunks s, v_embedding_func s, v_a s, v_b s),
      (v_db s, v_query s, v_docs s, v_MODEL_NAME s, v_quantization_config s, v_llm s),
      (v_template s, v_prompt s, v_qa_chain s, v_result s, shown s))"

definition with_rank :: "('r, 'd, 'e, 'v, 'l) kernel \<Rightarrow> ('r, 'd, 'e, 'v, 'l) kernel \<Rightarrow>
    ('r, 'd, 'e, 'v, 'l) kernel" where
  "with_rank t s = s\<lparr>rng := rng t, precision := precision t, v_A := v_A t, v_U := v_U t,
     v_S := v_S t, v_Vt := v_Vt t, v_k := v_k t, v_S_k := v_S_k t, v_A_k := v_A_k t,
     v_error := v_error t, v_errors := v_errors t, v_ranks := v_ranks t, out := out t\<rparr>"

definition with_rag :: "('r, 'd, 'e, 'v, 'l) kernel \<Rightarrow> ('r, 'd, 'e, 'v, 'l) kernel \<Rightarrow>
    ('r, 'd, 'e, 'v, 'l) kernel" where
  "with_rag t s = s\<lparr>v_fiel_dir := v_fiel_dir t, v_loader := v_loader t, v_pages := v_pages t,
     v_url := v_url t, v_save_dir := v_save_dir t, v_video_docs := v_video_docs t,
     v_news_docs := v_news_docs t, v_text_splitter := v_text_splitter t,
     v_texts_chunks := v_texts_chunks t, v_embedding_func := v_embedding_func t,
     v_a := v_a t, v_b := v_b t, v_db := v_db t, v_query := v_query t, v_docs := v_docs t,
     v_MODEL_NAME := v_MODEL_NAME t, v_quantization_config := v_quantization_config t,
     v_llm := v_llm t, v_template := v_template t, v_prompt := v_prompt t,
     v_qa_chain := v_qa_chain t, v_result := v_result t, shown := shown t\<rparr>"

definition commutes_with :: "('s \<Rightarrow> 's) \<Rightarrow> 's cmd \<Rightarrow> bool" where
  "commutes_with g c \<longleftrightarrow> (\<forall>s. c (g s) = (fst (c s), g (snd (c s))))"

section \<open>Two runs of one command\<close>

text \<open>
  What a run adds to the output, and an output item without the precision it was printed
  with. Two runs of a command are compared by a relation between their states: from
  related states the command ends both runs alike, in states related by \<open>Q\<close> when it
  completes and by \<open>E\<close> when it raises.
\<close>

definition new_out :: "('r, 'd, 'e, 'v, 'l) cell \<Rightarrow> ('r, 'd, 'e, 'v, 'l) kernel \<Rightarrow> out_item list" where
  "new_out c s = drop (length (out s)) (out (snd (c s)))"

fun payload :: "out_item \<Rightarrow> out_item" where
  "payload (Arr p M) = Arr 0 M"
| "payload (Text t) = Text t"
| "payload (Plot xs ys t x y) = Plot xs ys t x y"

definition both_runs :: "('s \<Rightarrow> 's \<Rightarrow> bool) \<Rightarrow> 's cmd \<Rightarrow> ('s \<Rightarrow> 's \<Rightarrow> bool) \<Rightarrow> ('s \<Rightarrow> 's \<Rightarrow> bool) \<Rightarrow> bool" where
  "both_runs P c Q E \<longleftrightarrow>
     (\<forall>s t. P s t \<longrightarrow> fst (c s) = fst (c t) \<and>
        (if fst (c s) = None then Q (snd (c s)) (snd (c t)) else E (snd (c s)) (snd (c t))))"

definition same_out :: "nat \<Rightarrow> nat \<Rightarrow> ('r, 'd, 'e, 'v, 'l) kernel \<Rightarrow> ('r, 'd, 'e, 'v, 'l) kernel \<Rightarrow> bool" where
  "same_out n m s t \<longleftrightarrow>
     n \<le> length (out s) \<and> m \<le> length (out t) \<and>
     map payload (drop n (out s)) = map payload (drop m (out t))"

definition same_factors :: "('r, 'd, 'e, 'v, 'l) kernel \<Rightarrow> ('r, 'd, 'e, 'v, 'l) kernel \<Rightarrow> bool" where
  "same_factors s t \<longleftrightarrow> v_A s = v_A t \<and> v_U s = v_U t \<and> v_S s = v_S t \<and> v_Vt s = v_Vt t"

definition same_step :: "('r, 'd, 'e, 'v, 'l) kernel \<Rightarrow> ('r, 'd, 'e, 'v, 'l) kernel \<Rightarrow> bool" where
  "same_step s t \<longleftrightarrow> v_k s = v_k t \<and> v_S_k s = v_S_k t \<and> v_A_k s = v_A_k t"

definition same_errors :: "('r, 'd, 'e, 'v, 'l) kernel \<Rightarrow> ('r, 'd, 'e, 'v, 'l) kernel \<Rightarrow> bool" where
  "same_errors s t \<longleftrightarrow> v_errors s = v_errors t \<and> v_ranks s = v_ranks t"

text \<open>
  The relations between two runs of a cell, \<open>n\<close> and \<open>m\<close> being how much each kernel had
  printed before: the same \<open>A\<close> once it is drawn, the same factors once it is decomposed,
  the same \<open>errors\<close> and \<open>ranks\<close> once they are set, the same \<open>k\<close>, \<open>S_k\<close> and \<open>A_k\<close> after
  a round of the loop, and the same \<open>error\<close> after a round of the second loop.
\<close>

definition after_rand :: "nat \<Rightarrow> nat \<Rightarrow> ('r, 'd, 'e, 'v, 'l) kernel \<Rightarrow> ('r, 'd, 'e, 'v, 'l) kernel \<Rightarrow> bool" where
  "after_rand n m s t \<longleftrightarrow> same_out n m s t \<and> v_A s = v_A t"

definition after_svd :: "nat \<Rightarrow> nat \<Rightarrow> ('r, 'd, 'e, 'v, 'l) kernel \<Rightarrow> ('r, 'd, 'e, 'v, 'l) kernel \<Rightarrow> bool" where
  "after_svd n m s t \<longleftrightarrow> same_out n m s t \<and> same_factors s t"

definition after_step :: "nat \<Rightarrow> nat \<Rightarrow> ('r, 'd, 'e, 'v, 'l) kernel \<Rightarrow> ('r, 'd, 'e, 'v, 'l) kernel \<Rightarrow> bool" where
  "after_step n m s t \<longleftrightarrow> same_out n m s t \<and> same_factors s t \<and> same_step s t"

definition before_loop :: "nat \<Rightarrow> nat \<Rightarrow> ('r, 'd, 'e, 'v, 'l) kernel \<Rightarrow> ('r, 'd, 'e, 'v, 'l) kernel \<Rightarrow> bool" where
  "before_loop n m s t \<longleftrightarrow> same_out n m s t \<and> same_factors s t \<and> same_errors s t"

definition after_round :: "nat \<Rightarrow> nat \<Rightarrow> ('r, 'd, 'e, 'v, 'l) kernel \<Rightarrow> ('r, 'd, 'e, 'v, 'l) kernel \<Rightarrow> bool" where
  "after_round n m s t \<longleftrightarrow>
     same_out n m s t \<and> same_factors s t \<and> same_errors s t \<and> same_step s t \<and>
     v_error s = v_error t"

definition with_k :: "('r, 'd, 'e, 'v, 'l) kernel \<Rightarrow> ('r, 'd, 'e, 'v, 'l) kernel \<Rightarrow> bool" where
  "with_k s t \<longleftrightarrow> v_k s = v_k t"

definition with_S_k :: "('r, 'd, 'e, 'v, 'l) kernel \<Rightarrow> ('r, 'd, 'e, 'v, 'l) kernel \<Rightarrow> bool" where
  "with_S_k s t \<longleftrightarrow> v_k s = v_k t \<and> v_S_k s = v_S_k t"

section \<open>Stand-ins for the libraries\<close>

text \<open>
  The theorems below hold for every library. Where one has hypotheses, they are shown to be
  met by small libraries written out here. For numpy: a generator that returns a diagonal
  matrix, and a decomposition that is right on diagonal matrices with a positive,
  decreasing diagonal. For the RAG libraries: a document is its text, the web loader
  returns one article and the two other loaders fail, the splitter cuts three pieces, the
  store is the list of its chunks and a search returns the first \<open>k\<close> of them.
\<close>

type_synonym demo_kernel = "(nat, ustr, nat, ustr list, nat) kernel"

definition ident :: "nat \<Rightarrow> matrix" where
  "ident n = diag (replicate n 1)"

definition demo_np :: "nat numpy" where
  "demo_np = \<lparr>seed = (\<lambda>n. n),
     rand = (\<lambda>r m n. (map (\<lambda>i. map (\<lambda>j. if i = j then real (n - i) else 0) [0..<n]) [0..<m], Suc r)),
     svd = (\<lambda>M. Inr (ident (nrows M), map (\<lambda>i. M ! i ! i) [0..<min (nrows M) (ncols M)],
                    ident (ncols M)))\<rparr>"

definition demo_S :: "nat \<Rightarrow> vec" where
  "demo_S n = map (\<lambda>i. real (n - i)) [0..<n]"

definition demo_lc :: "(ustr, nat, ustr list, nat) langchain" where
  "demo_lc =
     \<lparr>load = (\<lambda>l. case l of
          PyPDFLoader p \<Rightarrow> Inl (Raised ''FileNotFoundError'')
        | GenericLoader us d \<Rightarrow> Inl (Raised ''RateLimitError'')
        | WebBaseLoader u \<Rightarrow> Inr [str ''What is an LLM'']),
      page_content = (\<lambda>d. d),
      split_documents = (\<lambda>sp ds. Inr (concat (map (\<lambda>d. [take 4 d, take 4 (drop 4 d), drop 8 d]) ds))),
      HuggingFaceEmbeddings = (\<lambda>c. Inr 0),
      embed_query = (\<lambda>e t. Inr [real (length t)]),
      cosine_similarity = (\<lambda>x y. Inr [[1]]),
      from_documents = (\<lambda>ds e. Inr ds),
      similarity_search_with_score = (\<lambda>v q k. Inr (map (\<lambda>d. (d, 0)) (take k v))),
      similarity_search = (\<lambda>v q k. Inr (take k v)),
      from_model_id = (\<lambda>c. Inr 0),
      invoke = (\<lambda>c inputs. case inputs ''query'' of
          None \<Rightarrow> Inl ValueError
        | Some q \<Rightarrow>
            (if return_source_documents c
             then Inr [''query'' \<mapsto> RStr q, ''result'' \<mapsto> RStr (str ''a language model''),
                    ''source_documents'' \<mapsto>
                      RDocs (take (search_k (qa_retriever c)) (vectorstore (qa_retriever c)))]
             else Inr [''query'' \<mapsto> RStr q, ''result'' \<mapsto> RStr (str ''a language model'')]))\<rparr>"


text \<open>A kernel in which the cells before the last have left their variables.\<close>

definition demo_chunks :: "ustr list" where
  "demo_chunks = [str ''What'', str '' is '', str ''an LLM'']"

definition demo_ready :: demo_kernel where
  "demo_ready = (fresh 0)\<lparr>v_news_docs := Some [str ''What is an LLM''],
     v_texts_chunks := Some demo_chunks, v_embedding_func := Some 0,
     v_db := Some demo_chunks, v_query := Some query_text, v_llm := Some 0,
     v_prompt := Some \<lparr>template = template_text,
       input_variables = [str ''context'', str ''question'']\<rparr>\<rparr>"

text \<open>A kernel that has been used: another generator state, precision and variables.\<close>

definition demo_used :: demo_kernel where
  "demo_used = demo_ready\<lparr>rng := 9, precision := 2, v_A := Some [[1]], v_U := Some [[2]],
     v_A_k := Some [[3]], v_errors := Some [4], out := [Text ''before'']\<rparr>"

text \<open>A kernel in which a 5x5 matrix has been decomposed.\<close>

definition demo_decomposed :: demo_kernel where
  "demo_decomposed = (fresh 1)\<lparr>v_A := Some (diag (demo_S 5)), v_U := Some (ident 5),
     v_S := Some (demo_S 5), v_Vt := Some (ident 5), v_errors := Some []\<rparr>"

text \<open>A generator that returns a 10x10 matrix of rank 3.\<close>

definition low_S :: vec where
  "low_S = [3, 2, 1, 0, 0, 0, 0, 0, 0, 0]"

definition demo_low :: "nat numpy" where
  "demo_low = demo_np\<lparr>rand := \<lambda>r m n. (diag low_S, Suc r)\<rparr>"

section \<open>Shapes and single steps\<close>

lemma is_mat_ncols: "is_mat m n M \<Longrightarrow> 0 < m \<Longrightarrow> ncols M = n"
  by (cases M) (auto simp: is_mat_def ncols_def)

lemma is_mat_nrows: "is_mat m n M \<Longrightarrow> nrows M = m"
  by (simp add: is_mat_def nrows_def)

lemma is_mat_cols_upto: "is_mat m n M \<Longrightarrow> is_mat m (min k n) (cols_upto k M)"
  by (auto simp: is_mat_def cols_upto_def list_all_iff min.commute)

lemma is_mat_rows_upto: "is_mat m n M \<Longrightarrow> is_mat (min k m) n (rows_upto k M)"
  by (auto simp: is_mat_def rows_upto_def list_all_iff min.commute dest: in_set_takeD)

lemma is_mat_diag: "is_mat (length v) (length v) (diag v)"
  by (auto simp: is_mat_def diag_def list_all_iff)

lemma is_mat_mm: "is_mat m p A \<Longrightarrow> is_mat p n B \<Longrightarrow> 0 < p \<Longrightarrow> is_mat m n (mm A B)"
  by (auto simp: is_mat_def mm_def list_all_iff is_mat_ncols)

lemma is_mat_msub: "is_mat m n A \<Longrightarrow> is_mat m n B \<Longrightarrow> is_mat m n (msub A B)"
  by (auto simp: is_mat_def msub_def list_all_iff set_zip)

lemma matmul_ok: "is_mat m p A \<Longrightarrow> is_mat p n B \<Longrightarrow> 0 < m \<Longrightarrow> matmul A B = Inr (mm A B)"
  by (simp add: matmul_def is_mat_ncols is_mat_nrows)

lemma subtract_ok: "is_mat m n A \<Longrightarrow> is_mat m n B \<Longrightarrow> subtract A B = Inr (msub A B)"
  by (cases "m = 0") (auto simp: subtract_def is_mat_ncols is_mat_nrows, auto simp: ncols_def is_mat_def)

lemma product_ok:
  assumes U: "is_mat m m U" and S: "length S = min m p" and Vt: "is_mat p p Vt"
    and k: "0 < k" "k \<le> min m p"
  shows "matmul (cols_upto k U) (diag (take k S)) = Inr (mm (cols_upto k U) (diag (take k S)))"
    and "matmul (mm (cols_upto k U) (diag (take k S))) (rows_upto k Vt) = Inr (approx U S Vt k)"
    and "is_mat m p (approx U S Vt k)"
proof -
  from k have m: "0 < m" and p: "0 < p" and km: "min k m = k" and kp: "min k p = k"
    and ks: "min (length S) k = k"
    using S by auto
  have c: "is_mat m k (cols_upto k U)"
    using is_mat_cols_upto [OF U, of k] km by simp
  have d: "is_mat k k (diag (take k S))"
    using is_mat_diag [of "take k S"] ks by simp
  have r: "is_mat k p (rows_upto k Vt)"
    using is_mat_rows_upto [OF Vt, of k] kp by simp
  have cd: "is_mat m k (mm (cols_upto k U) (diag (take k S)))"
    using is_mat_mm [OF c d] k by simp
  show "matmul (cols_upto k U) (diag (take k S)) = Inr (mm (cols_upto k U) (diag (take k S)))"
    by (rule matmul_ok [OF c d m])
  show "matmul (mm (cols_upto k U) (diag (take k S))) (rows_upto k Vt) = Inr (approx U S Vt k)"
    by (simp add: matmul_ok [OF cd r m] approx_def)
  show "is_mat m p (approx U S Vt k)"
    unfolding approx_def using is_mat_mm [OF cd r] k by simp
qed

lemma block_Cons_ok: "c s = (None, s') \<Longrightarrow> block (c # cs) s = block cs s'"
  by simp

lemma block_Cons_raise: "c s = (Some e, s') \<Longrightarrow> block (c # cs) s = (Some e, s')"
  by simp

lemma body_10x10_run:
  assumes vs: "v_A s = Some A" "v_U s = Some U" "v_S s = Some S" "v_Vt s = Some Vt"
    "v_errors s = Some es"
    and A: "is_mat m p A" and U: "is_mat m m U" and S: "length S = min m p"
    and Vt: "is_mat p p Vt" and k: "0 < k" "k \<le> min m p"
  shows "body_10x10 k s =
    (None, s\<lparr>v_k := Some k, v_S_k := Some (diag (take k S)),
       v_A_k := Some (approx U S Vt k), v_error := Some (approx_error A U S Vt k),
       v_errors := Some (es @ [approx_error A U S Vt k])\<rparr>)"
proof -
  let ?s1 = "s\<lparr>v_k := Some k\<rparr>"
  let ?s2 = "?s1\<lparr>v_S_k := Some (diag (take k S))\<rparr>"
  let ?s3 = "?s2\<lparr>v_A_k := Some (approx U S Vt k)\<rparr>"
  let ?s4 = "?s3\<lparr>v_error := Some (approx_error A U S Vt k)\<rparr>"
  let ?s5 = "?s4\<lparr>v_errors := Some (es @ [approx_error A U S Vt k])\<rparr>"
  have 1: "bind_k k s = (None, ?s1)"
    by (simp add: bind_k_def)
  have 2: "S_k_diag ?s1 = (None, ?s2)"
    using vs by (simp add: S_k_diag_def assign_def rd_def bnd_def)
  have 3: "A_k_product ?s2 = (None, ?s3)"
    using vs product_ok(1,2) [OF U S Vt k]
    by (simp add: A_k_product_def assign_def rd_def bnd_def)
  have 4: "error_norm ?s3 = (None, ?s4)"
    using vs subtract_ok [OF A product_ok(3) [OF U S Vt k]]
    by (simp add: error_norm_def assign_def rd_def bnd_def approx_error_def)
  have 5: "errors_append ?s4 = (None, ?s5)"
    using vs by (simp add: errors_append_def assign_def rd_def bnd_def)
  show ?thesis
    by (simp add: body_10x10_def 1 2 3 4 5)
qed

lemma loop_10x10_run:
  assumes "v_A s = Some A" "v_U s = Some U" "v_S s = Some S" "v_Vt s = Some Vt"
    and "v_errors s = Some es"
    and "is_mat m p A" "is_mat m m U" "length S = min m p" "is_mat p p Vt"
    and "list_all (\<lambda>k. 0 < k \<and> k \<le> min m p) ks"
  shows "\<exists>s'. for_each ks body_10x10 s = (None, s') \<and>
           v_errors s' = Some (es @ map (approx_error A U S Vt) ks) \<and>
           v_A s' = Some A \<and> v_U s' = Some U \<and> v_S s' = Some S \<and> v_Vt s' = Some Vt \<and>
           v_ranks s' = v_ranks s \<and> rng s' = rng s \<and> precision s' = precision s \<and>
           out s' = out s"
  using assms
proof (induction ks arbitrary: s es)
  case Nil
  then show ?case by simp
next
  case (Cons k ks)
  let ?t = "s\<lparr>v_k := Some k, v_S_k := Some (diag (take k S)),
       v_A_k := Some (approx U S Vt k), v_error := Some (approx_error A U S Vt k),
       v_errors := Some (es @ [approx_error A U S Vt k])\<rparr>"
  from Cons.prems have k: "0 < k" "k \<le> min m p" and ks: "list_all (\<lambda>k. 0 < k \<and> k \<le> min m p) ks"
    by simp_all
  have step: "body_10x10 k s = (None, ?t)"
    using Cons.prems(1-9) k by (rule body_10x10_run)
  have "\<exists>s'. for_each ks body_10x10 ?t = (None, s') \<and>
           v_errors s' = Some ((es @ [approx_error A U S Vt k]) @ map (approx_error A U S Vt) ks) \<and>
           v_A s' = Some A \<and> v_U s' = Some U \<and> v_S s' = Some S \<and> v_Vt s' = Some Vt \<and>
           v_ranks s' = v_ranks ?t \<and> rng s' = rng ?t \<and> precision s' = precision ?t \<and>
           out s' = out ?t"
    using Cons.prems(1-4,6-9) ks by (intro Cons.IH) simp_all
  then show ?case
    by (simp add: step)
qed

lemma body_10x10_frame:
  "v_A (snd (body_10x10 k s)) = v_A s \<and> v_U (snd (body_10x10 k s)) = v_U s \<and>
   v_S (snd (body_10x10 k s)) = v_S s \<and> v_Vt (snd (body_10x10 k s)) = v_Vt s"
  by (simp add: body_10x10_def bind_k_def S_k_diag_def A_k_product_def error_norm_def
      errors_append_def assign_def split: sum.splits prod.splits option.splits)

lemma body_5x5_frame:
  "v_A (snd (body_5x5 k s)) = v_A s \<and> v_U (snd (body_5x5 k s)) = v_U s \<and>
   v_S (snd (body_5x5 k s)) = v_S s \<and> v_Vt (snd (body_5x5 k s)) = v_Vt s"
  by (simp add: body_5x5_def bind_k_def S_k_diag_def A_k_product_def print_text_def print_arr_def
      assign_def split: sum.splits prod.splits option.splits)

lemma for_each_frame:
  assumes "\<And>k s. f (snd (body k s)) = f s"
  shows "f (snd (for_each ks body s)) = f s"
proof (induction ks arbitrary: s)
  case Nil
  show ?case by simp
next
  case (Cons k ks)
  obtain r t where b: "body k s = (r, t)" by (cases "body k s")
  have t: "f t = f s" using assms [of k s] b by simp
  show ?case
  proof (cases r)
    case None
    then show ?thesis using b t Cons.IH [of t] by simp
  next
    case (Some e)
    then show ?thesis using b t by simp
  qed
qed

lemma loop_5x5_frame:
  "v_A (snd (for_each ks body_5x5 s)) = v_A s"
  "v_U (snd (for_each ks body_5x5 s)) = v_U s"
  "v_S (snd (for_each ks body_5x5 s)) = v_S s"
  "v_Vt (snd (for_each ks body_5x5 s)) = v_Vt s"
  by (rule for_each_frame, simp add: body_5x5_frame)+

lemma for_each_10x10_frame:
  "v_A (snd (for_each ks body_10x10 s)) = v_A s"
  "v_U (snd (for_each ks body_10x10 s)) = v_U s"
  "v_S (snd (for_each ks body_10x10 s)) = v_S s"
  "v_Vt (snd (for_each ks body_10x10 s)) = v_Vt s"
  by (rule for_each_frame, simp add: body_10x10_frame)+

lemma loop_10x10_frame:
  "v_A (snd (loop_10x10 s)) = v_A s"
  "v_U (snd (loop_10x10 s)) = v_U s"
  "v_S (snd (loop_10x10 s)) = v_S s"
  "v_Vt (snd (loop_10x10 s)) = v_Vt s"
  by (simp_all add: loop_10x10_def rd_def for_each_10x10_frame split: option.splits)

lemma cell_10x10_run:
  assumes rand: "rand np (seed np 0) 10 10 = (A, r)" and A: "is_mat 10 10 A"
    and svd: "svd np A = Inr (U, S, Vt)"
    and U: "is_mat 10 10 U" and S: "length S = 10" and Vt: "is_mat 10 10 Vt"
  shows "\<exists>s'. cell_10x10 np s = (None, s') \<and>
           v_A s' = Some A \<and> v_U s' = Some U \<and> v_S s' = Some S \<and> v_Vt s' = Some Vt \<and>
           v_ranks s' = Some [1..<11] \<and>
           v_errors s' = Some (map (approx_error A U S Vt) [1..<11]) \<and>
           rng s' = r \<and> precision s' = precision s \<and>
           out s' = out s @ [Plot [1..<11] (map (approx_error A U S Vt) [1..<11])
             ''Error of Low Rank Approximations'' ''Rank k'' ''Frobenius Norm of the Error'']"
proof -
  let ?s1 = "s\<lparr>rng := seed np 0\<rparr>"
  let ?s2 = "?s1\<lparr>rng := r, v_A := Some A\<rparr>"
  let ?s3 = "?s2\<lparr>v_U := Some U, v_S := Some S, v_Vt := Some Vt\<rparr>"
  let ?s4 = "?s3\<lparr>v_errors := Some []\<rparr>"
  let ?s5 = "?s4\<lparr>v_ranks := Some [1..<11]\<rparr>"
  have 1: "random_seed np 0 s = (None, ?s1)"
    by (simp add: random_seed_def)
  have 2: "A_rand np 10 10 ?s1 = (None, ?s2)"
    using rand by (simp add: A_rand_def)
  have 3: "USVt_svd np ?s2 = (None, ?s3)"
    using svd by (simp add: USVt_svd_def assign_def rd_def bnd_def)
  have ks: "list_all (\<lambda>k. 0 < k \<and> k \<le> min 10 10) [1..<11]"
    by (simp add: list_all_iff)
  have S': "length S = min 10 10" using S by simp
  obtain t where t: "for_each [1..<11] body_10x10 ?s5 = (None, t)"
    and te: "v_errors t = Some ([] @ map (approx_error A U S Vt) [1..<11])"
    and tf: "v_A t = Some A" "v_U t = Some U" "v_S t = Some S" "v_Vt t = Some Vt"
      "v_ranks t = v_ranks ?s5" "rng t = rng ?s5" "precision t = precision ?s5" "out t = out ?s5"
    using loop_10x10_run [where s = ?s5 and es = "[]" and A = A and U = U and S = S and Vt = Vt,
        OF _ _ _ _ _ A U S' Vt ks]
    by auto
  have 6: "loop_10x10 ?s5 = (None, t)"
    using t by (simp add: loop_10x10_def rd_def)
  have 7: "plot_errors t = (None, t\<lparr>out := out t @ [Plot [1..<11] (map (approx_error A U S Vt) [1..<11])
             ''Error of Low Rank Approximations'' ''Rank k'' ''Frobenius Norm of the Error'']\<rparr>)"
    using te tf by (simp add: plot_errors_def rd_def bnd_def)
  have "cell_10x10 np s = (None, t\<lparr>out := out t @ [Plot [1..<11] (map (approx_error A U S Vt) [1..<11])
             ''Error of Low Rank Approximations'' ''Rank k'' ''Frobenius Norm of the Error'']\<rparr>)"
    by (simp only: cell_10x10_def block.simps 1 2 3 6 7 prod.case option.case)
  then show ?thesis
    using te tf by simp
qed

lemma demo_rand: "rand demo_np r n n = (diag (demo_S n), Suc r)"
  by (simp add: demo_np_def diag_def demo_S_def)

lemma diag_nth: "i < length v \<Longrightarrow> diag v ! i ! i = v ! i"
  by (simp add: diag_def)

lemma length_diag: "length (diag v) = length v"
  by (simp add: diag_def)

lemma demo_svd: "0 < length v \<Longrightarrow> svd demo_np (diag v) = Inr (ident (length v), v, ident (length v))"
proof -
  assume v: "0 < length v"
  have "map (\<lambda>i. diag v ! i ! i) [0..<length v] = map (\<lambda>i. v ! i) [0..<length v]"
    by (rule map_cong) (simp_all add: diag_nth)
  then have "map (\<lambda>i. diag v ! i ! i) [0..<length v] = v"
    by (simp add: map_nth)
  then show ?thesis
    using v by (simp add: demo_np_def nrows_def is_mat_ncols [OF is_mat_diag] length_diag)
qed

lemma is_mat_ident: "is_mat n n (ident n)"
  using is_mat_diag [of "replicate n 1"] by (simp add: ident_def)

section \<open>Running the cells of the RAG notebook\<close>

lemma block_Cons_None:
  "block (c # cs) s = (None, s') \<longleftrightarrow> (\<exists>t. c s = (None, t) \<and> block cs t = (None, s'))"
  by (cases "c s") (auto split: option.splits)


lemma assign_None:
  "assign rhs st s = (None, s') \<longleftrightarrow> (\<exists>v. rhs s = Inr v \<and> s' = st v s)"
  by (auto simp: assign_def split: sum.splits)

lemma assign_Some:
  "assign rhs st s = (Some e, s') \<longleftrightarrow> rhs s = Inl e \<and> s' = s"
  by (auto simp: assign_def split: sum.splits)

lemma bnd_Inr: "bnd m f = Inr y \<longleftrightarrow> (\<exists>x. m = Inr x \<and> f x = Inr y)"
  by (cases m) (simp_all add: bnd_def)

lemma bnd_Inl: "bnd m f = Inl e \<longleftrightarrow> m = Inl e \<or> (\<exists>x. m = Inr x \<and> f x = Inl e)"
  by (cases m) (simp_all add: bnd_def)

lemma rd_Inr: "rd n v = Inr x \<longleftrightarrow> v = Some x"
  by (cases v) (simp_all add: rd_def)

lemma first_item_Inr: "first_item xs = Inr x \<longleftrightarrow> (\<exists>ys. xs = x # ys)"
  by (cases xs) simp_all

lemma item_Inr: "item d k n = Inr x \<longleftrightarrow> d k = Some x"
  by (cases "d k") (simp_all add: item_def)

lemmas run_None = block_Cons_None assign_None bnd_Inr rd_Inr first_item_Inr item_Inr

lemma cell_web_None:
  "cell_web lc s = (None, s') \<longleftrightarrow>
     (\<exists>d ds. load lc (WebBaseLoader bnext_url) = Inr (d # ds) \<and>
        s' = s\<lparr>v_loader := Some (WebBaseLoader bnext_url), v_url := Some bnext_url,
               v_news_docs := Some (d # ds),
               shown := shown s @ [Shown (take 100 (page_content lc d))]\<rparr>)"
  unfolding cell_web_def
  by (simp add: run_None del: block.simps(2)) auto

lemma cell_split_None:
  "cell_split lc s = (None, s') \<longleftrightarrow>
     (\<exists>news chunks. v_news_docs s = Some news \<and>
        split_documents lc \<lparr>chunk_size = 200, chunk_overlap = 30\<rparr> news = Inr chunks \<and>
        s' = s\<lparr>v_text_splitter := Some \<lparr>chunk_size = 200, chunk_overlap = 30\<rparr>,
               v_texts_chunks := Some chunks\<rparr>)"
  unfolding cell_split_def
  by (simp add: run_None del: block.simps(2)) auto

lemma cell_embed_None:
  "cell_embed lc s = (None, s') \<longleftrightarrow>
     (\<exists>ef a b m. HuggingFaceEmbeddings lc stella = Inr ef \<and>
        embed_query lc ef sentence_a = Inr a \<and> embed_query lc ef sentence_b = Inr b \<and>
        cosine_similarity lc [a] [b] = Inr m \<and>
        s' = s\<lparr>v_embedding_func := Some ef, v_a := Some a, v_b := Some b,
               shown := shown s @ [ShownArr m]\<rparr>)"
  unfolding cell_embed_def
  by (simp add: run_None del: block.simps(2)) auto

lemma cell_store_None:
  "cell_store lc s = (None, s') \<longleftrightarrow>
     (\<exists>chunks ef db d ds. v_texts_chunks s = Some chunks \<and> v_embedding_func s = Some ef \<and>
        from_documents lc chunks ef = Inr db \<and>
        similarity_search_with_score lc db query_text 4 = Inr (d # ds) \<and>
        s' = s\<lparr>v_db := Some db, v_query := Some query_text, v_docs := Some (d # ds),
               shown := shown s @ [ShownScored d]\<rparr>)"
  unfolding cell_store_def
  by (simp add: run_None del: block.simps(2)) auto

lemma cell_llm_None:
  "cell_llm lc s = (None, s') \<longleftrightarrow>
     (\<exists>l. from_model_id lc (breeze (str ''MediaTek-Research/Breeze-7B-Instruct-v0_1'') nf4) = Inr l \<and>
        s' = s\<lparr>v_MODEL_NAME := Some (str ''MediaTek-Research/Breeze-7B-Instruct-v0_1''),
               v_quantization_config := Some nf4, v_llm := Some l,
               v_template := Some template_text,
               v_prompt := Some \<lparr>template = template_text,
                  input_variables = [str ''context'', str ''question'']\<rparr>\<rparr>)"
  unfolding cell_llm_def
  by (simp add: run_None del: block.simps(2)) auto

lemma cell_qa_None:
  "cell_qa lc s = (None, s') \<longleftrightarrow>
     (\<exists>l db p q res ans srcs. v_llm s = Some l \<and> v_db s = Some db \<and> v_prompt s = Some p \<and>
        v_query s = Some q \<and>
        invoke lc (from_chain_type l (str ''stuff'') (as_retriever db [''k'' \<mapsto> 2]) True p)
          [''query'' \<mapsto> q] = Inr res \<and>
        res ''result'' = Some ans \<and> res ''source_documents'' = Some srcs \<and>
        s' = s\<lparr>v_qa_chain :=
                 Some (from_chain_type l (str ''stuff'') (as_retriever db [''k'' \<mapsto> 2]) True p),
               v_result := Some res,
               shown := shown s @ [Printed (RStr reply_label), Printed ans,
                  Printed (RStr sources_label), Printed srcs]\<rparr>)"
  unfolding cell_qa_def
  by (simp add: run_None del: block.simps(2)) auto

lemma demo_pipeline_runs: "fst (pipeline demo_lc (fresh 0 :: demo_kernel)) = None"
  by (simp add: pipeline_def cell_web_def cell_split_def cell_embed_def cell_store_def
      cell_llm_def cell_qa_def assign_def bnd_def rd_def item_def demo_lc_def
      fresh_def from_chain_type_def as_retriever_def search_k_def str_def)




lemma demo_search_contract: "search_contract demo_lc"
  by (simp add: search_contract_def demo_lc_def)

lemma demo_retrieval_qa_contract: "retrieval_qa_contract demo_lc"
  by (auto simp: retrieval_qa_contract_def demo_lc_def split: option.splits if_splits)


section \<open>Commands that leave the other notebook's part alone\<close>

lemma commutes_assign:
  assumes "\<And>s. rhs (g s) = rhs s" and "\<And>v s. st v (g s) = g (st v s)"
  shows "commutes_with g (assign rhs st)"
  using assms by (simp add: commutes_with_def assign_def split: sum.splits)

lemma commutes_block:
  assumes "list_all (commutes_with g) cs"
  shows "commutes_with g (block cs)"
  using assms
proof (induction cs)
  case Nil
  show ?case by (simp add: commutes_with_def)
next
  case (Cons c cs)
  then have c: "\<And>s. c (g s) = (fst (c s), g (snd (c s)))"
    and cs: "\<And>s. block cs (g s) = (fst (block cs s), g (snd (block cs s)))"
    by (simp_all add: commutes_with_def)
  show ?case
    unfolding commutes_with_def
  proof
    fix s
    obtain r t where ct: "c s = (r, t)" by (cases "c s")
    show "block (c # cs) (g s) = (fst (block (c # cs) s), g (snd (block (c # cs) s)))"
      using c [of s] cs [of t] ct by (cases r) simp_all
  qed
qed

lemma commutes_for_each:
  assumes "\<And>k. commutes_with g (body k)"
  shows "commutes_with g (for_each ks body)"
proof (induction ks)
  case Nil
  show ?case by (simp add: commutes_with_def)
next
  case (Cons k ks)
  have b: "\<And>s. body k (g s) = (fst (body k s), g (snd (body k s)))"
    using assms [of k] by (simp add: commutes_with_def)
  from Cons have ks: "\<And>s. for_each ks body (g s) = (fst (for_each ks body s), g (snd (for_each ks body s)))"
    by (simp add: commutes_with_def)
  show ?case
    unfolding commutes_with_def
  proof
    fix s
    obtain r t where bt: "body k s = (r, t)" by (cases "body k s")
    show "for_each (k # ks) body (g s) =
        (fst (for_each (k # ks) body s), g (snd (for_each (k # ks) body s)))"
      using b [of s] ks [of t] bt by (cases r) simp_all
  qed
qed

lemma rag_cells_commute:
  "commutes_with (with_rank t) (cell_pdf lc)"
  "commutes_with (with_rank t) (cell_youtube lc)"
  "commutes_with (with_rank t) (cell_web lc)"
  "commutes_with (with_rank t) (cell_split lc)"
  "commutes_with (with_rank t) (cell_embed lc)"
  "commutes_with (with_rank t) (cell_store lc)"
  "commutes_with (with_rank t) (cell_llm lc)"
  "commutes_with (with_rank t) (cell_qa lc)"
  unfolding cell_pdf_def cell_youtube_def cell_web_def cell_split_def cell_embed_def
    cell_store_def cell_llm_def cell_qa_def
  by (intro commutes_block, simp, intro conjI commutes_assign; simp add: with_rank_def)+

lemma rank_stmts_commute:
  "commutes_with (with_rag t) (random_seed np n)"
  "commutes_with (with_rag t) (A_rand np m n)"
  "commutes_with (with_rag t) (print_text txt)"
  "commutes_with (with_rag t) (print_arr (\<lambda>s. rd ''A'' (v_A s)))"
  "commutes_with (with_rag t) (print_arr (\<lambda>s. rd ''A_k'' (v_A_k s)))"
  "commutes_with (with_rag t) (USVt_svd np)"
  "commutes_with (with_rag t) (bind_k k)"
  "commutes_with (with_rag t) S_k_diag"
  "commutes_with (with_rag t) A_k_product"
  "commutes_with (with_rag t) error_norm"
  "commutes_with (with_rag t) errors_append"
  "commutes_with (with_rag t) plot_errors"
  "commutes_with (with_rag t) (\<lambda>s. (None, s\<lparr>precision := pr\<rparr>))"
  "commutes_with (with_rag t) (\<lambda>s. (None, s\<lparr>v_errors := es\<rparr>))"
  "commutes_with (with_rag t) (\<lambda>s. (None, s\<lparr>v_ranks := rs\<rparr>))"
  by (simp_all add: commutes_with_def with_rag_def random_seed_def A_rand_def print_text_def
      print_arr_def USVt_svd_def bind_k_def S_k_diag_def A_k_product_def error_norm_def
      errors_append_def plot_errors_def assign_def
      split: sum.splits prod.splits)

lemma rank_bodies_commute:
  "commutes_with (with_rag t) (body_5x5 k)"
  "commutes_with (with_rag t) (body_10x10 k)"
  unfolding body_5x5_def body_10x10_def
  by (intro commutes_block, simp add: rank_stmts_commute)+

lemma loop_10x10_commutes: "commutes_with (with_rag t) loop_10x10"
proof -
  have "commutes_with (with_rag t) (for_each ks body_10x10)" for ks
    by (intro commutes_for_each rank_bodies_commute)
  then show ?thesis
    by (simp add: commutes_with_def loop_10x10_def with_rag_def split: sum.splits)
qed

lemma rank_cells_commute:
  "commutes_with (with_rag t) (cell_5x5 np)"
  "commutes_with (with_rag t) (cell_10x10 np)"
  unfolding cell_5x5_def cell_10x10_def
  by (intro commutes_block,
      simp add: rank_stmts_commute loop_10x10_commutes commutes_for_each rank_bodies_commute)+

lemma rank_notebook_commutes: "commutes_with (with_rag t) (rank_notebook np)"
  unfolding rank_notebook_def by (intro commutes_block) (simp add: rank_cells_commute)

lemma pipeline_commutes: "commutes_with (with_rank t) (pipeline lc)"
  unfolding pipeline_def by (intro commutes_block) (simp add: rag_cells_commute)

lemma rag_notebook_commutes: "commutes_with (with_rank t) (rag_notebook lc)"
  unfolding rag_notebook_def
  by (intro commutes_block) (simp add: rag_cells_commute pipeline_commutes)

lemma with_rank_self: "with_rank s s = s"
  by (simp add: with_rank_def)

lemma with_rag_self: "with_rag s s = s"
  by (simp add: with_rag_def)

lemma views_with_rank: "rank_view (with_rank t s) = rank_view t" "rag_view (with_rank t s) = rag_view s"
  by (simp_all add: with_rank_def rank_view_def rag_view_def)

lemma views_with_rag: "rag_view (with_rag t s) = rag_view t" "rank_view (with_rag t s) = rank_view s"
  by (simp_all add: with_rag_def rank_view_def rag_view_def)

lemma same_rag_view: "rag_view s = rag_view t \<Longrightarrow> with_rank t s = t"
  by (cases s, cases t) (simp add: with_rank_def rag_view_def)

lemma same_rank_view: "rank_view s = rank_view t \<Longrightarrow> with_rag t s = t"
  by (cases s, cases t) (simp add: with_rag_def rank_view_def)

lemma commutes_untouched:
  assumes c: "commutes_with (g s) c" and id: "g s s = s"
  shows "snd (c s) = g s (snd (c s))"
proof -
  from c have "c (g s s) = (fst (c s), g s (snd (c s)))"
    by (simp add: commutes_with_def)
  then have "c s = (fst (c s), g s (snd (c s)))"
    by (simp only: id)
  then show ?thesis
    by (metis snd_conv)
qed

section \<open>Two runs of a cell\<close>

lemma both_runs_Nil: "(\<And>s t. P s t \<Longrightarrow> Q s t) \<Longrightarrow> both_runs P (block []) Q E"
  by (simp add: both_runs_def)

lemma both_runs_Cons:
  assumes c: "both_runs P c R E" and cs: "both_runs R (block cs) Q E"
  shows "both_runs P (block (c # cs)) Q E"
  unfolding both_runs_def
proof (intro allI impI)
  fix s t assume P: "P s t"
  obtain r s' where cs': "c s = (r, s')" by (cases "c s")
  obtain r' t' where ct': "c t = (r', t')" by (cases "c t")
  from c P have "fst (c s) = fst (c t) \<and>
      (if fst (c s) = None then R (snd (c s)) (snd (c t)) else E (snd (c s)) (snd (c t)))"
    unfolding both_runs_def by blast
  with cs' ct' have r: "r' = r" and post: "if r = None then R s' t' else E s' t'"
    by auto
  show "fst (block (c # cs) s) = fst (block (c # cs) t) \<and>
      (if fst (block (c # cs) s) = None
       then Q (snd (block (c # cs) s)) (snd (block (c # cs) t))
       else E (snd (block (c # cs) s)) (snd (block (c # cs) t)))"
  proof (cases r)
    case None
    with post have "R s' t'" by simp
    with cs have "fst (block cs s') = fst (block cs t') \<and>
      (if fst (block cs s') = None then Q (snd (block cs s')) (snd (block cs t'))
       else E (snd (block cs s')) (snd (block cs t')))"
      by (simp add: both_runs_def)
    with None r cs' ct' show ?thesis by simp
  next
    case (Some e)
    with post r cs' ct' show ?thesis by simp
  qed
qed

lemma for_each_block: "for_each ks body = block (map body ks)"
proof
  fix s show "for_each ks body s = block (map body ks) s"
    by (induction ks arbitrary: s) (simp_all split: prod.splits option.splits)
qed

lemma both_runs_weaken:
  assumes "both_runs P c Q E" and "\<And>s t. P' s t \<Longrightarrow> P s t" and "\<And>s t. Q s t \<Longrightarrow> Q' s t"
    and "\<And>s t. E s t \<Longrightarrow> E' s t"
  shows "both_runs P' c Q' E'"
  using assms unfolding both_runs_def by (metis (full_types))

lemma both_runs_for_each:
  assumes body: "\<And>k. both_runs I (body k) J E" and JI: "\<And>s t. J s t \<Longrightarrow> I s t"
    and ks: "ks \<noteq> []"
  shows "both_runs I (for_each ks body) J E"
  using ks
proof (induction ks)
  case Nil
  then show ?case by simp
next
  case (Cons k ks)
  show ?case
  proof (cases "ks = []")
    case True
    have "both_runs I (block [body k]) J E"
      by (intro both_runs_Cons [OF body] both_runs_Nil)
    with True show ?thesis by (simp only: for_each_block list.map)
  next
    case False
    with Cons.IH have "both_runs I (for_each ks body) J E"
      by blast
    then have "both_runs I (block (map body ks)) J E"
      by (simp only: for_each_block)
    then have "both_runs J (block (map body ks)) J E"
      by (rule both_runs_weaken) (simp_all add: JI)
    with body [of k] have "both_runs I (block (body k # map body ks)) J E"
      by (rule both_runs_Cons)
    then show ?thesis by (simp only: for_each_block list.map)
  qed
qed

lemmas rels = same_out_def same_factors_def same_step_def same_errors_def after_rand_def
  after_svd_def after_step_def before_loop_def after_round_def

lemma seed_rand_runs:
  "both_runs (same_out n m) (block [random_seed np j, A_rand np a b]) (after_rand n m) E"
  by (auto simp: both_runs_def random_seed_def A_rand_def rels split: prod.splits)

lemma print_text_runs:
  "both_runs (after_rand n m) (print_text x) (after_rand n m) E"
  "both_runs (after_svd n m) (print_text x) (after_svd n m) E"
  "both_runs (after_step n m) (print_text x) (after_step n m) E"
  by (auto simp: both_runs_def print_text_def rels)

lemma print_A_runs:
  "both_runs (after_rand n m) (print_arr (\<lambda>s. rd ''A'' (v_A s))) (after_rand n m) (after_rand n m)"
  by (auto simp: both_runs_def print_arr_def rd_def rels split: option.splits)

lemma print_A_k_runs:
  "both_runs (after_step n m) (print_arr (\<lambda>s. rd ''A_k'' (v_A_k s))) (after_step n m) (after_rand n m)"
  by (auto simp: both_runs_def print_arr_def rd_def rels split: option.splits)

lemma svd_runs:
  "both_runs (after_rand n m) (USVt_svd np) (after_svd n m) (after_rand n m)"
  by (auto simp: both_runs_def USVt_svd_def assign_def rd_def bnd_def rels
      split: option.splits sum.splits)

lemma precision_runs:
  "both_runs (after_svd n m) (\<lambda>s. (None, s\<lparr>precision := p\<rparr>)) (after_svd n m) E"
  by (auto simp: both_runs_def rels)

lemma step_runs:
  "both_runs (after_svd n m) (block [bind_k k, S_k_diag, A_k_product]) (after_step n m) (after_rand n m)"
  by (auto simp: both_runs_def bind_k_def S_k_diag_def A_k_product_def assign_def rd_def bnd_def rels
      split: option.splits sum.splits)

lemma step_runs_5x5:
  "both_runs (after_svd n m) (bind_k k) (\<lambda>s t. after_svd n m s t \<and> with_k s t) (after_rand n m)"
  "both_runs (\<lambda>s t. after_svd n m s t \<and> with_k s t) S_k_diag
     (\<lambda>s t. after_svd n m s t \<and> with_S_k s t) (after_rand n m)"
  "both_runs (\<lambda>s t. after_svd n m s t \<and> with_S_k s t) A_k_product (after_step n m) (after_rand n m)"
  by (auto simp: both_runs_def bind_k_def S_k_diag_def A_k_product_def assign_def rd_def bnd_def
      rels with_k_def with_S_k_def split: option.splits sum.splits)

lemma body_5x5_runs:
  "both_runs (after_svd n m) (body_5x5 k) (after_step n m) (after_rand n m)"
  unfolding body_5x5_def
  by (intro both_runs_Cons [OF step_runs_5x5(1)] both_runs_Cons [OF step_runs_5x5(2)]
      both_runs_Cons [OF step_runs_5x5(3)] both_runs_Cons [OF print_text_runs(3)]
      both_runs_Cons [OF print_A_k_runs] both_runs_Nil)

lemma step_runs_10x10:
  "both_runs (before_loop n m) (bind_k k) (\<lambda>s t. before_loop n m s t \<and> with_k s t) (after_rand n m)"
  "both_runs (\<lambda>s t. before_loop n m s t \<and> with_k s t) S_k_diag
     (\<lambda>s t. before_loop n m s t \<and> with_S_k s t) (after_rand n m)"
  "both_runs (\<lambda>s t. before_loop n m s t \<and> with_S_k s t) A_k_product
     (\<lambda>s t. before_loop n m s t \<and> same_step s t) (after_rand n m)"
  "both_runs (\<lambda>s t. before_loop n m s t \<and> same_step s t) error_norm
     (\<lambda>s t. before_loop n m s t \<and> same_step s t \<and> v_error s = v_error t) (after_rand n m)"
  "both_runs (\<lambda>s t. before_loop n m s t \<and> same_step s t \<and> v_error s = v_error t)
     errors_append (after_round n m) (after_rand n m)"
  by (auto simp: both_runs_def bind_k_def S_k_diag_def A_k_product_def error_norm_def
      errors_append_def assign_def rd_def bnd_def
      rels with_k_def with_S_k_def split: option.splits sum.splits)

lemma body_10x10_runs:
  "both_runs (before_loop n m) (body_10x10 k) (after_round n m) (after_rand n m)"
  unfolding body_10x10_def
  by (intro both_runs_Cons [OF step_runs_10x10(1)] both_runs_Cons [OF step_runs_10x10(2)]
      both_runs_Cons [OF step_runs_10x10(3)] both_runs_Cons [OF step_runs_10x10(4)]
      both_runs_Cons [OF step_runs_10x10(5)] both_runs_Nil)

lemma loop_5x5_runs:
  "both_runs (after_svd n m) (for_each [1, 3] body_5x5) (after_step n m) (after_rand n m)"
  by (rule both_runs_for_each [OF body_5x5_runs]) (simp_all add: rels)

lemma cell_5x5_runs:
  "both_runs (same_out n m) (cell_5x5 np) (after_step n m) (after_rand n m)"
proof -
  have start: "both_runs (same_out n m) (random_seed np 0)
      (\<lambda>s t. same_out n m s t \<and> rng s = rng t) (after_rand n m)"
    and draw: "both_runs (\<lambda>s t. same_out n m s t \<and> rng s = rng t) (A_rand np 5 5)
      (after_rand n m) (after_rand n m)"
    by (auto simp: both_runs_def random_seed_def A_rand_def rels split: prod.splits)
  show ?thesis
    unfolding cell_5x5_def
    by (intro both_runs_Cons [OF start] both_runs_Cons [OF draw]
        both_runs_Cons [OF print_text_runs(1)] both_runs_Cons [OF print_A_runs]
        both_runs_Cons [OF svd_runs] both_runs_Cons [OF precision_runs]
        both_runs_Cons [OF loop_5x5_runs] both_runs_Nil)
qed

lemma loop_10x10_runs:
  assumes "rs \<noteq> []"
  shows "both_runs (\<lambda>s t. before_loop n m s t \<and> v_ranks s = Some rs) loop_10x10
           (after_round n m) (after_rand n m)"
proof -
  have loop: "both_runs (before_loop n m) (for_each rs body_10x10) (after_round n m) (after_rand n m)"
    by (rule both_runs_for_each [OF body_10x10_runs _ assms]) (simp add: rels)
  show ?thesis
    unfolding both_runs_def
  proof (intro allI impI)
    fix s t :: "('a, 'b, 'c, 'd, 'e) kernel"
    assume pre: "before_loop n m s t \<and> v_ranks s = Some rs"
    then have "v_ranks t = Some rs" by (auto simp: rels)
    with pre have "loop_10x10 s = for_each rs body_10x10 s" "loop_10x10 t = for_each rs body_10x10 t"
      by (simp_all add: loop_10x10_def rd_def)
    moreover from loop pre have "fst (for_each rs body_10x10 s) = fst (for_each rs body_10x10 t) \<and>
          (if fst (for_each rs body_10x10 s) = None
           then after_round n m (snd (for_each rs body_10x10 s)) (snd (for_each rs body_10x10 t))
           else after_rand n m (snd (for_each rs body_10x10 s)) (snd (for_each rs body_10x10 t)))"
      unfolding both_runs_def by blast
    ultimately show "fst (loop_10x10 s) = fst (loop_10x10 t) \<and>
          (if fst (loop_10x10 s) = None then after_round n m (snd (loop_10x10 s)) (snd (loop_10x10 t))
           else after_rand n m (snd (loop_10x10 s)) (snd (loop_10x10 t)))"
      by auto
  qed
qed

lemma cell_10x10_runs:
  "both_runs (same_out n m) (cell_10x10 np) (after_round n m) (after_rand n m)"
proof -
  have start: "both_runs (same_out n m) (random_seed np 0)
      (\<lambda>s t. same_out n m s t \<and> rng s = rng t) (after_rand n m)"
    and draw: "both_runs (\<lambda>s t. same_out n m s t \<and> rng s = rng t) (A_rand np 10 10)
      (after_rand n m) (after_rand n m)"
    and errors: "both_runs (after_svd n m) (\<lambda>s. (None, s\<lparr>v_errors := Some []\<rparr>))
      (\<lambda>s t. after_svd n m s t \<and> v_errors s = v_errors t) (after_rand n m)"
    and ranks: "both_runs (\<lambda>s t. after_svd n m s t \<and> v_errors s = v_errors t)
      (\<lambda>s. (None, s\<lparr>v_ranks := Some [1..<11]\<rparr>))
      (\<lambda>s t. before_loop n m s t \<and> v_ranks s = Some [1..<11]) (after_rand n m)"
    and plot: "both_runs (after_round n m) plot_errors (after_round n m) (after_rand n m)"
    by (auto simp: both_runs_def random_seed_def A_rand_def plot_errors_def rd_def bnd_def rels
        split: prod.splits option.splits)
  have loop: "both_runs (\<lambda>s t. before_loop n m s t \<and> v_ranks s = Some [1..<11]) loop_10x10
           (after_round n m) (after_rand n m)"
    by (rule loop_10x10_runs) simp
  show ?thesis
    unfolding cell_10x10_def
    by (intro both_runs_Cons [OF start] both_runs_Cons [OF draw] both_runs_Cons [OF svd_runs]
        both_runs_Cons [OF errors] both_runs_Cons [OF ranks] both_runs_Cons [OF loop]
        both_runs_Cons [OF plot] both_runs_Nil)
qed

lemma same_out_start: "same_out (length (out s)) (length (out t)) s t"
  by (simp add: same_out_def)

lemma same_out_new:
  assumes "same_out (length (out s)) (length (out t)) (snd (c s)) (snd (c t))"
  shows "map payload (new_out c s) = map payload (new_out c t)"
  using assms by (simp add: same_out_def new_out_def)

section \<open>One round of a loop\<close>

lemma step_run:
  assumes vs: "v_U s = Some U" "v_S s = Some S" "v_Vt s = Some Vt"
    and U: "is_mat m m U" and S: "length S = min m p"
    and Vt: "is_mat p p Vt" and k: "0 < k" "k \<le> min m p"
  shows "block [bind_k k, S_k_diag, A_k_product] s =
    (None, s\<lparr>v_k := Some k, v_S_k := Some (diag (take k S)), v_A_k := Some (approx U S Vt k)\<rparr>)"
proof -
  let ?s1 = "s\<lparr>v_k := Some k\<rparr>"
  let ?s2 = "?s1\<lparr>v_S_k := Some (diag (take k S))\<rparr>"
  let ?s3 = "?s2\<lparr>v_A_k := Some (approx U S Vt k)\<rparr>"
  have 1: "bind_k k s = (None, ?s1)"
    by (simp add: bind_k_def)
  have 2: "S_k_diag ?s1 = (None, ?s2)"
    using vs by (simp add: S_k_diag_def assign_def rd_def bnd_def)
  have 3: "A_k_product ?s2 = (None, ?s3)"
    using vs product_ok(1,2) [OF U S Vt k]
    by (simp add: A_k_product_def assign_def rd_def bnd_def)
  show ?thesis
    by (simp add: 1 2 3)
qed

lemma body_5x5_run:
  assumes vs: "v_U s = Some U" "v_S s = Some S" "v_Vt s = Some Vt"
    and U: "is_mat m m U" and S: "length S = min m p"
    and Vt: "is_mat p p Vt" and k: "0 < k" "k \<le> min m p"
  shows "body_5x5 k s =
    (None, s\<lparr>v_k := Some k, v_S_k := Some (diag (take k S)), v_A_k := Some (approx U S Vt k),
       out := out s @ [Text (''Rank '' @ str_nat k @ '' approximation:''),
         Arr (precision s) (approx U S Vt k), Text [CHR 0x0A, CHR 0x0A]]\<rparr>)"
proof -
  let ?s1 = "s\<lparr>v_k := Some k\<rparr>"
  let ?s2 = "?s1\<lparr>v_S_k := Some (diag (take k S))\<rparr>"
  let ?s3 = "?s2\<lparr>v_A_k := Some (approx U S Vt k)\<rparr>"
  have 1: "bind_k k s = (None, ?s1)"
    by (simp add: bind_k_def)
  have 2: "S_k_diag ?s1 = (None, ?s2)"
    using vs by (simp add: S_k_diag_def assign_def rd_def bnd_def)
  have 3: "A_k_product ?s2 = (None, ?s3)"
    using vs product_ok(1,2) [OF U S Vt k]
    by (simp add: A_k_product_def assign_def rd_def bnd_def)
  show ?thesis
    by (simp add: body_5x5_def 1 2 3 print_text_def print_arr_def rd_def)
qed

lemma rank_at_most_approx:
  assumes U: "is_mat m m U" and S: "length S = min m p"
    and Vt: "is_mat p p Vt" and k: "0 < k" "k \<le> min m p"
  shows "rank_at_most k (approx U S Vt k)"
proof -
  from k have m: "0 < m" and p: "0 < p" and km: "min k m = k" and kp: "min k p = k"
    and ks: "min (length S) k = k"
    using S by auto
  have c: "is_mat m k (cols_upto k U)"
    using is_mat_cols_upto [OF U, of k] km by simp
  have d: "is_mat k k (diag (take k S))"
    using is_mat_diag [of "take k S"] ks by simp
  have r: "is_mat k p (rows_upto k Vt)"
    using is_mat_rows_upto [OF Vt, of k] kp by simp
  have cd: "is_mat m k (mm (cols_upto k U) (diag (take k S)))"
    using is_mat_mm [OF c d] k by simp
  have M: "is_mat m p (approx U S Vt k)"
    by (rule product_ok(3) [OF U S Vt k])
  have "nrows (approx U S Vt k) = m" "ncols (approx U S Vt k) = p"
    using is_mat_nrows [OF M] is_mat_ncols [OF M m] by simp_all
  with cd r show ?thesis
    unfolding rank_at_most_def approx_def by blast
qed

lemma cell_5x5_run:
  assumes rand: "rand np (seed np 0) 5 5 = (A, r)"
    and svd: "svd np A = Inr (U, S, Vt)"
    and U: "is_mat 5 5 U" and S: "length S = 5" and Vt: "is_mat 5 5 Vt"
  shows "cell_5x5 np s =
    (None, s\<lparr>rng := r, precision := 2, v_A := Some A, v_U := Some U, v_S := Some S,
       v_Vt := Some Vt, v_k := Some 3, v_S_k := Some (diag (take 3 S)),
       v_A_k := Some (approx U S Vt 3),
       out := out s @ [Text ''full-rank = Original Matrix A:'', Arr (precision s) A,
         Text [CHR 0x0A, CHR 0x0A],
         Text ''Rank 1 approximation:'', Arr 2 (approx U S Vt 1), Text [CHR 0x0A, CHR 0x0A],
         Text ''Rank 3 approximation:'', Arr 2 (approx U S Vt 3), Text [CHR 0x0A, CHR 0x0A]]\<rparr>)"
proof -
  let ?o = "out s @ [Text ''full-rank = Original Matrix A:'', Arr (precision s) A,
         Text [CHR 0x0A, CHR 0x0A]]"
  let ?s1 = "s\<lparr>rng := r, precision := 2, v_A := Some A, v_U := Some U, v_S := Some S,
       v_Vt := Some Vt, out := ?o\<rparr>"
  let ?s2 = "?s1\<lparr>v_k := Some 1, v_S_k := Some (diag (take 1 S)), v_A_k := Some (approx U S Vt 1),
       out := out ?s1 @ [Text (''Rank '' @ str_nat 1 @ '' approximation:''),
         Arr (precision ?s1) (approx U S Vt 1), Text [CHR 0x0A, CHR 0x0A]]\<rparr>"
  have S': "length S = min 5 5" using S by simp
  have pre: "block [random_seed np 0, A_rand np 5 5,
       print_text ''full-rank = Original Matrix A:'',
       print_arr (\<lambda>s. rd ''A'' (v_A s)),
       print_text [CHR 0x0A, CHR 0x0A],
       USVt_svd np,
       (\<lambda>s. (None, s\<lparr>precision := 2\<rparr>))] s = (None, ?s1)"
    using rand svd
    by (simp add: random_seed_def A_rand_def print_text_def print_arr_def USVt_svd_def
        assign_def rd_def bnd_def)
  have b1: "body_5x5 1 ?s1 = (None, ?s2)"
    by (rule body_5x5_run [OF _ _ _ U S' Vt]) simp_all
  have b3: "body_5x5 3 ?s2 = (None, ?s2\<lparr>v_k := Some 3, v_S_k := Some (diag (take 3 S)),
       v_A_k := Some (approx U S Vt 3),
       out := out ?s2 @ [Text (''Rank '' @ str_nat 3 @ '' approximation:''),
         Arr (precision ?s2) (approx U S Vt 3), Text [CHR 0x0A, CHR 0x0A]]\<rparr>)"
    by (rule body_5x5_run [OF _ _ _ U S' Vt]) simp_all
  have digits: "str_nat 1 = ''1''" "str_nat 3 = ''3''"
    by code_simp+
  have loop: "for_each [1, 3] body_5x5 ?s1 = (None, ?s2\<lparr>v_k := Some 3, v_S_k := Some (diag (take 3 S)),
       v_A_k := Some (approx U S Vt 3),
       out := out ?s2 @ [Text (''Rank '' @ str_nat 3 @ '' approximation:''),
         Arr (precision ?s2) (approx U S Vt 3), Text [CHR 0x0A, CHR 0x0A]]\<rparr>)"
    by (simp only: for_each.simps b1 b3 prod.case option.case)
  have split: "cell_5x5 np s = (case block [random_seed np 0, A_rand np 5 5,
       print_text ''full-rank = Original Matrix A:'',
       print_arr (\<lambda>s. rd ''A'' (v_A s)),
       print_text [CHR 0x0A, CHR 0x0A],
       USVt_svd np,
       (\<lambda>s. (None, s\<lparr>precision := 2\<rparr>))] s of
         (None, s') \<Rightarrow> for_each [1, 3] body_5x5 s' | (Some e, s') \<Rightarrow> (Some e, s'))"
    by (simp add: cell_5x5_def split: prod.splits option.splits)
  have "cell_5x5 np s = for_each [1, 3] body_5x5 ?s1"
    unfolding split pre by (simp only: prod.case option.case)
  then have "cell_5x5 np s = (None, ?s2\<lparr>v_k := Some 3, v_S_k := Some (diag (take 3 S)),
       v_A_k := Some (approx U S Vt 3),
       out := out ?s2 @ [Text (''Rank '' @ str_nat 3 @ '' approximation:''),
         Arr (precision ?s2) (approx U S Vt 3), Text [CHR 0x0A, CHR 0x0A]]\<rparr>)"
    by (simp only: loop)
  then show ?thesis
    by (simp add: digits)
qed

lemma demo_np_run:
  "rand demo_np (seed demo_np 0) n n = (diag (demo_S n), 1)"
  "0 < n \<Longrightarrow> svd demo_np (diag (demo_S n)) = Inr (ident n, demo_S n, ident n)"
  "is_mat n n (diag (demo_S n))" "length (demo_S n) = n"
proof -
  show l: "length (demo_S n) = n" by (simp add: demo_S_def)
  show "rand demo_np (seed demo_np 0) n n = (diag (demo_S n), 1)"
    by (simp add: demo_rand) (simp add: demo_np_def)
  show "0 < n \<Longrightarrow> svd demo_np (diag (demo_S n)) = Inr (ident n, demo_S n, ident n)"
    using demo_svd [of "demo_S n"] l by simp
  show "is_mat n n (diag (demo_S n))"
    using is_mat_diag [of "demo_S n"] l by simp
qed

section \<open>Entries, sums and the energy of the tail\<close>

lemma is_mat_row: "is_mat m n M \<Longrightarrow> i < m \<Longrightarrow> length (M ! i) = n"
  by (simp add: is_mat_def list_all_length)

lemma dot_sum:
  assumes "length u = p" and "length v = p"
  shows "dot u v = (\<Sum>l<p. u ! l * v ! l)"
proof -
  have "map2 (*) u v = map (\<lambda>l. u ! l * v ! l) [0..<p]"
    using assms by (intro nth_equalityI) simp_all
  then show ?thesis
    by (simp add: dot_def interv_sum_list_conv_sum_set_nat atLeast0LessThan)
qed

lemma mm_entry:
  assumes A: "is_mat m p A" and B: "is_mat p q B" and p: "0 < p" and i: "i < m" and j: "j < q"
  shows "mm A B ! i ! j = (\<Sum>l<p. A ! i ! l * B ! l ! j)"
proof -
  have colB: "length (col B j) = p" "\<And>l. l < p \<Longrightarrow> col B j ! l = B ! l ! j"
    using B by (simp_all add: col_def is_mat_def)
  have nc: "ncols B = q" by (rule is_mat_ncols [OF B p])
  have "mm A B ! i ! j = dot (A ! i) (col B j)"
    using A i j by (simp add: mm_def nc is_mat_def)
  also have "\<dots> = (\<Sum>l<p. A ! i ! l * col B j ! l)"
    using is_mat_row [OF A i] colB(1) by (rule dot_sum)
  also have "\<dots> = (\<Sum>l<p. A ! i ! l * B ! l ! j)"
    using colB(2) by simp
  finally show ?thesis .
qed

lemma diag_entry: "i < length v \<Longrightarrow> j < length v \<Longrightarrow> diag v ! i ! j = (if i = j then v ! i else 0)"
  by (simp add: diag_def)

lemma mm_diag_entry:
  assumes A: "is_mat m p A" and v: "length v = p" and p: "0 < p" and i: "i < m" and j: "j < p"
  shows "mm A (diag v) ! i ! j = A ! i ! j * v ! j"
proof -
  have d: "is_mat p p (diag v)" using is_mat_diag [of v] v by simp
  have "mm A (diag v) ! i ! j = (\<Sum>l<p. A ! i ! l * diag v ! l ! j)"
    by (rule mm_entry [OF A d p i j])
  also have "\<dots> = (\<Sum>l<p. if l = j then A ! i ! j * v ! j else 0)"
    using v j by (intro sum.cong) (auto simp: diag_entry)
  also have "\<dots> = A ! i ! j * v ! j"
    using j by simp
  finally show ?thesis .
qed

lemma approx_entry:
  assumes U: "is_mat n n U" and S: "length S = n" and Vt: "is_mat n n Vt"
    and k: "0 < k" "k \<le> n" and i: "i < n" and j: "j < n"
  shows "approx U S Vt k ! i ! j = (\<Sum>l<k. U ! i ! l * S ! l * Vt ! l ! j)"
proof -
  from k S have km: "min k n = k" and ks: "min (length S) k = k" and lt: "length (take k S) = k"
    by auto
  have c: "is_mat n k (cols_upto k U)"
    using is_mat_cols_upto [OF U, of k] km by simp
  have r: "is_mat k n (rows_upto k Vt)"
    using is_mat_rows_upto [OF Vt, of k] km by simp
  have d: "is_mat k k (diag (take k S))"
    using is_mat_diag [of "take k S"] ks by simp
  have cd: "is_mat n k (mm (cols_upto k U) (diag (take k S)))"
    using is_mat_mm [OF c d] k by simp
  have "approx U S Vt k ! i ! j =
      (\<Sum>l<k. mm (cols_upto k U) (diag (take k S)) ! i ! l * rows_upto k Vt ! l ! j)"
    unfolding approx_def by (rule mm_entry [OF cd r k(1) i j])
  also have "\<dots> = (\<Sum>l<k. U ! i ! l * S ! l * Vt ! l ! j)"
  proof (rule sum.cong)
    fix l assume "l \<in> {..<k}"
    then have l: "l < k" by simp
    have "mm (cols_upto k U) (diag (take k S)) ! i ! l = cols_upto k U ! i ! l * take k S ! l"
      by (rule mm_diag_entry [OF c lt k(1) i l])
    moreover have "cols_upto k U ! i ! l = U ! i ! l"
      using U i l by (simp add: cols_upto_def is_mat_def)
    moreover have "rows_upto k Vt ! l ! j = Vt ! l ! j"
      using l by (simp add: rows_upto_def)
    ultimately show "mm (cols_upto k U) (diag (take k S)) ! i ! l * rows_upto k Vt ! l ! j =
        U ! i ! l * S ! l * Vt ! l ! j"
      using l by simp
  qed simp
  finally show ?thesis .
qed

lemma approx_full:
  assumes U: "is_mat n n U" and S: "length S = n" and Vt: "is_mat n n Vt"
  shows "approx U S Vt n = mm (mm U (diag S)) Vt"
proof -
  have "cols_upto n U = U"
    using U by (auto simp: cols_upto_def is_mat_def list_all_iff intro: map_idI)
  moreover have "rows_upto n Vt = Vt"
    using Vt by (simp add: rows_upto_def is_mat_def)
  ultimately show ?thesis
    using S by (simp add: approx_def)
qed

lemma norm_fro_sum:
  assumes M: "is_mat m q M"
  shows "(norm_fro M)\<^sup>2 = (\<Sum>i<m. \<Sum>j<q. (M ! i ! j)\<^sup>2)"
proof -
  have row: "sum_list (map (\<lambda>x. x\<^sup>2) (M ! i)) = (\<Sum>j<q. (M ! i ! j)\<^sup>2)" if "i < m" for i
  proof -
    have "map (\<lambda>x. x\<^sup>2) (M ! i) = map (\<lambda>j. (M ! i ! j)\<^sup>2) [0..<q]"
      using is_mat_row [OF M that] by (intro nth_equalityI) simp_all
    then show ?thesis
      by (simp add: interv_sum_list_conv_sum_set_nat atLeast0LessThan)
  qed
  have "map (\<lambda>r. sum_list (map (\<lambda>x. x\<^sup>2) r)) M = map (\<lambda>i. \<Sum>j<q. (M ! i ! j)\<^sup>2) [0..<m]"
    using M row by (intro nth_equalityI) (simp_all add: is_mat_def)
  then have sum: "sum_list (map (\<lambda>r. sum_list (map (\<lambda>x. x\<^sup>2) r)) M) = (\<Sum>i<m. \<Sum>j<q. (M ! i ! j)\<^sup>2)"
    by (simp add: interv_sum_list_conv_sum_set_nat atLeast0LessThan)
  have "0 \<le> (\<Sum>i<m. \<Sum>j<q. (M ! i ! j)\<^sup>2)"
    by (intro sum_nonneg) simp
  then show ?thesis
    by (simp add: norm_fro_def sum)
qed

lemma msub_entry:
  assumes "is_mat m q A" and "is_mat m q B" and "i < m" and "j < q"
  shows "msub A B ! i ! j = A ! i ! j - B ! i ! j"
  using assms by (simp add: msub_def is_mat_def list_all_length)

lemma sum_swap4:
  fixes f :: "nat \<Rightarrow> nat \<Rightarrow> nat \<Rightarrow> nat \<Rightarrow> real"
  shows "(\<Sum>i\<in>I. \<Sum>j\<in>J. \<Sum>l\<in>L. \<Sum>l'\<in>L'. f i j l l') =
         (\<Sum>l\<in>L. \<Sum>l'\<in>L'. \<Sum>i\<in>I. \<Sum>j\<in>J. f i j l l')"
proof -
  have "(\<Sum>i\<in>I. \<Sum>j\<in>J. \<Sum>l\<in>L. \<Sum>l'\<in>L'. f i j l l') =
        (\<Sum>i\<in>I. \<Sum>l\<in>L. \<Sum>j\<in>J. \<Sum>l'\<in>L'. f i j l l')"
    by (rule sum.cong [OF refl]) (rule sum.swap)
  also have "\<dots> = (\<Sum>l\<in>L. \<Sum>i\<in>I. \<Sum>j\<in>J. \<Sum>l'\<in>L'. f i j l l')"
    by (rule sum.swap)
  also have "\<dots> = (\<Sum>l\<in>L. \<Sum>i\<in>I. \<Sum>l'\<in>L'. \<Sum>j\<in>J. f i j l l')"
    by (rule sum.cong [OF refl], rule sum.cong [OF refl]) (rule sum.swap)
  also have "\<dots> = (\<Sum>l\<in>L. \<Sum>l'\<in>L'. \<Sum>i\<in>I. \<Sum>j\<in>J. f i j l l')"
    by (rule sum.cong [OF refl]) (rule sum.swap)
  finally show ?thesis .
qed

lemma orthonormal_cols:
  assumes U: "is_mat n n U" and o: "orthonormal (map (col U) [0..<n])" and l: "l < n" "l' < n"
  shows "(\<Sum>i<n. U ! i ! l * U ! i ! l') = (if l = l' then 1 else 0)"
proof -
  have len: "length (col U l) = n" "length (col U l') = n"
    using U by (simp_all add: col_def is_mat_def)
  have "dot (col U l) (col U l') = (\<Sum>i<n. col U l ! i * col U l' ! i)"
    using len by (rule dot_sum)
  also have "\<dots> = (\<Sum>i<n. U ! i ! l * U ! i ! l')"
    using U by (intro sum.cong) (simp_all add: col_def is_mat_def)
  finally show ?thesis
    using o l by (simp add: orthonormal_def)
qed

lemma orthonormal_rows:
  assumes Vt: "is_mat n n Vt" and o: "orthonormal Vt" and l: "l < n" "l' < n"
  shows "(\<Sum>j<n. Vt ! l ! j * Vt ! l' ! j) = (if l = l' then 1 else 0)"
proof -
  have "dot (Vt ! l) (Vt ! l') = (\<Sum>j<n. Vt ! l ! j * Vt ! l' ! j)"
    using is_mat_row [OF Vt l(1)] is_mat_row [OF Vt l(2)] by (rule dot_sum)
  moreover have "length Vt = n" using Vt by (simp add: is_mat_def)
  ultimately show ?thesis
    using o l by (simp add: orthonormal_def)
qed

lemma energy:
  fixes u v :: "nat \<Rightarrow> nat \<Rightarrow> real" and s :: "nat \<Rightarrow> real"
  assumes u: "\<And>l l'. l \<in> L \<Longrightarrow> l' \<in> L \<Longrightarrow> (\<Sum>i<n. u i l * u i l') = (if l = l' then 1 else 0)"
    and v: "\<And>l l'. l \<in> L \<Longrightarrow> l' \<in> L \<Longrightarrow> (\<Sum>j<n. v l j * v l' j) = (if l = l' then 1 else 0)"
    and L: "finite L"
  shows "(\<Sum>i<n. \<Sum>j<n. (\<Sum>l\<in>L. u i l * s l * v l j)\<^sup>2) = (\<Sum>l\<in>L. (s l)\<^sup>2)"
proof -
  have "(\<Sum>i<n. \<Sum>j<n. (\<Sum>l\<in>L. u i l * s l * v l j)\<^sup>2) =
        (\<Sum>i<n. \<Sum>j<n. \<Sum>l\<in>L. \<Sum>l'\<in>L. (u i l * s l * v l j) * (u i l' * s l' * v l' j))"
    by (simp add: power2_eq_square sum_product)
  also have "\<dots> = (\<Sum>l\<in>L. \<Sum>l'\<in>L. \<Sum>i<n. \<Sum>j<n. (u i l * s l * v l j) * (u i l' * s l' * v l' j))"
    by (rule sum_swap4)
  also have "\<dots> = (\<Sum>l\<in>L. \<Sum>l'\<in>L. if l = l' then (s l)\<^sup>2 else 0)"
  proof (rule sum.cong [OF refl], rule sum.cong [OF refl])
    fix l l' assume l: "l \<in> L" "l' \<in> L"
    have "(\<Sum>i<n. \<Sum>j<n. (u i l * s l * v l j) * (u i l' * s l' * v l' j)) =
          (\<Sum>i<n. \<Sum>j<n. (s l * s l') * ((u i l * u i l') * (v l j * v l' j)))"
      by (rule sum.cong [OF refl], rule sum.cong [OF refl]) (simp add: ac_simps)
    also have "\<dots> = (s l * s l') * (\<Sum>i<n. \<Sum>j<n. (u i l * u i l') * (v l j * v l' j))"
      by (simp add: sum_distrib_left)
    also have "\<dots> = (s l * s l') * ((\<Sum>i<n. u i l * u i l') * (\<Sum>j<n. v l j * v l' j))"
      by (simp only: sum_product)
    also have "\<dots> = (if l = l' then (s l)\<^sup>2 else 0)"
      using u [OF l] v [OF l] by (simp add: power2_eq_square)
    finally show "(\<Sum>i<n. \<Sum>j<n. (u i l * s l * v l j) * (u i l' * s l' * v l' j)) =
        (if l = l' then (s l)\<^sup>2 else 0)" .
  qed
  also have "\<dots> = (\<Sum>l\<in>L. (s l)\<^sup>2)"
    using L by (rule_tac sum.cong [OF refl]) simp
  finally show ?thesis .
qed


lemma approx_error_sq:
  assumes svd: "exact_svd n A U S Vt" and k: "0 < k" "k \<le> n"
  shows "(approx_error A U S Vt k)\<^sup>2 = (\<Sum>l\<in>{k..<n}. (S ! l)\<^sup>2)"
proof -
  from svd have A: "is_mat n n A" and U: "is_mat n n U" and S: "length S = n"
    and Vt: "is_mat n n Vt" and oU: "orthonormal (map (col U) [0..<n])" and oV: "orthonormal Vt"
    and AU: "A = mm (mm U (diag S)) Vt"
    unfolding exact_svd_def svd_shapes_def by blast+
  from k have n: "0 < n" by simp
  have Ak: "is_mat n n (approx U S Vt k)"
    using product_ok(3) [of n U S n Vt k] U S Vt k by simp
  have full: "A = approx U S Vt n"
    using approx_full [OF U S Vt] AU by simp
  have entry: "msub A (approx U S Vt k) ! i ! j = (\<Sum>l\<in>{k..<n}. U ! i ! l * S ! l * Vt ! l ! j)"
    if ij: "i < n" "j < n" for i j
  proof -
    let ?a = "\<lambda>l. U ! i ! l * S ! l * Vt ! l ! j"
    have "A ! i ! j = sum ?a {..<n}"
      unfolding full by (rule approx_entry [OF U S Vt n _ ij]) simp
    moreover have "approx U S Vt k ! i ! j = sum ?a {..<k}"
      by (rule approx_entry [OF U S Vt k ij])
    moreover have "sum ?a {..<k} + sum ?a {k..<n} = sum ?a {..<n}"
      using sum.atLeastLessThan_concat [of 0 k n ?a] k by (simp add: atLeast0LessThan)
    ultimately show ?thesis
      using msub_entry [OF A Ak ij] by linarith
  qed
  have "(approx_error A U S Vt k)\<^sup>2 = (\<Sum>i<n. \<Sum>j<n. (msub A (approx U S Vt k) ! i ! j)\<^sup>2)"
    unfolding approx_error_def by (rule norm_fro_sum [OF is_mat_msub [OF A Ak]])
  also have "\<dots> = (\<Sum>i<n. \<Sum>j<n. (\<Sum>l\<in>{k..<n}. U ! i ! l * S ! l * Vt ! l ! j)\<^sup>2)"
    by (rule sum.cong [OF refl], rule sum.cong [OF refl]) (simp add: entry)
  also have "\<dots> = (\<Sum>l\<in>{k..<n}. (S ! l)\<^sup>2)"
  proof (rule energy)
    fix l l' assume "l \<in> {k..<n}" "l' \<in> {k..<n}"
    then have l: "l < n" "l' < n" by simp_all
    show "(\<Sum>i<n. U ! i ! l * U ! i ! l') = (if l = l' then 1 else 0)"
      by (rule orthonormal_cols [OF U oU l])
    show "(\<Sum>j<n. Vt ! l ! j * Vt ! l' ! j) = (if l = l' then 1 else 0)"
      by (rule orthonormal_rows [OF Vt oV l])
  qed simp
  finally show ?thesis .
qed


lemma approx_error_zero:
  assumes svd: "exact_svd n A U S Vt" and k: "0 < k" "k \<le> n"
    and zero: "\<And>l. k \<le> l \<Longrightarrow> l < n \<Longrightarrow> S ! l = 0"
  shows "approx_error A U S Vt k = 0"
proof -
  have "(approx_error A U S Vt k)\<^sup>2 = 0"
    using approx_error_sq [OF svd k] zero by simp
  then show ?thesis by simp
qed

lemma ident_entry: "i < n \<Longrightarrow> j < n \<Longrightarrow> ident n ! i ! j = (if i = j then 1 else 0)"
  by (simp add: ident_def diag_entry)

lemma length_ident: "length (ident n) = n"
  by (simp add: ident_def length_diag)

lemma orthonormal_ident: "orthonormal (ident n)"
  unfolding orthonormal_def length_ident
proof (intro allI impI)
  fix i j assume ij: "i < n" "j < n"
  have "dot (ident n ! i) (ident n ! j) = (\<Sum>l<n. ident n ! i ! l * ident n ! j ! l)"
    by (rule dot_sum) (simp_all add: is_mat_row [OF is_mat_ident] ij)
  also have "\<dots> = (\<Sum>l<n. if l = i then (if i = j then 1 else 0) else 0)"
    using ij by (intro sum.cong) (auto simp: ident_entry)
  also have "\<dots> = (if i = j then 1 else 0)"
    using ij by simp
  finally show "dot (ident n ! i) (ident n ! j) = (if i = j then 1 else 0)" .
qed

lemma cols_ident: "map (col (ident n)) [0..<n] = ident n"
proof (rule nth_equalityI)
  show "length (map (col (ident n)) [0..<n]) = length (ident n)"
    by (simp add: length_ident)
next
  fix i assume "i < length (map (col (ident n)) [0..<n])"
  then have i: "i < n" by simp
  have "col (ident n) i = ident n ! i"
  proof (rule nth_equalityI)
    show "length (col (ident n) i) = length (ident n ! i)"
      by (simp add: col_def length_ident is_mat_row [OF is_mat_ident i])
  next
    fix l assume "l < length (col (ident n) i)"
    then have l: "l < n" by (simp add: col_def length_ident)
    then show "col (ident n) i ! l = ident n ! i ! l"
      using i by (simp add: col_def length_ident ident_entry)
  qed
  with i show "map (col (ident n)) [0..<n] ! i = ident n ! i" by simp
qed

lemma mat_eqI:
  assumes A: "is_mat m q A" and B: "is_mat m q B"
    and eq: "\<And>i j. i < m \<Longrightarrow> j < q \<Longrightarrow> A ! i ! j = B ! i ! j"
  shows "A = B"
proof (rule nth_equalityI)
  show "length A = length B" using A B by (simp add: is_mat_def)
next
  fix i assume "i < length A"
  then have i: "i < m" using A by (simp add: is_mat_def)
  show "A ! i = B ! i"
    using is_mat_row [OF A i] is_mat_row [OF B i] eq [OF i] by (intro nth_equalityI) simp_all
qed

lemma mm_ident_right:
  assumes A: "is_mat m n A" and n: "0 < n"
  shows "mm A (ident n) = A"
proof (rule mat_eqI [OF is_mat_mm [OF A is_mat_ident n] A])
  fix i j assume ij: "i < m" "j < n"
  have "mm A (ident n) ! i ! j = A ! i ! j * replicate n 1 ! j"
    unfolding ident_def by (rule mm_diag_entry [OF A _ n ij]) simp
  then show "mm A (ident n) ! i ! j = A ! i ! j"
    using ij by simp
qed

lemma mm_ident_left:
  assumes A: "is_mat n q A" and n: "0 < n"
  shows "mm (ident n) A = A"
proof (rule mat_eqI [OF is_mat_mm [OF is_mat_ident A n] A])
  fix i j assume ij: "i < n" "j < q"
  have "mm (ident n) A ! i ! j = (\<Sum>l<n. ident n ! i ! l * A ! l ! j)"
    by (rule mm_entry [OF is_mat_ident A n ij])
  also have "\<dots> = (\<Sum>l<n. if l = i then A ! i ! j else 0)"
    using ij by (intro sum.cong) (auto simp: ident_entry)
  also have "\<dots> = A ! i ! j"
    using ij by simp
  finally show "mm (ident n) A ! i ! j = A ! i ! j" .
qed

lemma diag_exact_svd:
  assumes "length v = n" and "0 < n"
  shows "exact_svd n (diag v) (ident n) v (ident n)"
proof -
  have d: "is_mat n n (diag v)" using is_mat_diag [of v] assms by simp
  have "mm (mm (ident n) (diag v)) (ident n) = diag v"
    using mm_ident_left [OF d assms(2)] mm_ident_right [OF d assms(2)] by simp
  then show ?thesis
    by (simp add: exact_svd_def svd_shapes_def d is_mat_ident assms cols_ident
        orthonormal_ident)
qed


lemma zero_from_rank:
  assumes sv: "singular_values S" and l: "rank_of S \<le> l" "l < length S"
  shows "S ! l = 0"
proof (rule ccontr)
  assume nz: "S ! l \<noteq> 0"
  from sv l have "0 \<le> S ! l"
    by (simp add: singular_values_def list_all_length)
  with nz have pos: "0 < S ! l" by simp
  have all: "x \<noteq> 0" if "x \<in> set (take (Suc l) S)" for x
  proof -
    from that obtain i where i: "i < Suc l" "i < length S" "x = S ! i"
      by (auto simp: in_set_conv_nth)
    then have "S ! l \<le> S ! i"
      using sv l by (cases "i = l") (auto simp: singular_values_def sorted_wrt_iff_nth_less)
    with pos i show ?thesis by simp
  qed
  have "filter (\<lambda>x. x \<noteq> 0) S =
      filter (\<lambda>x. x \<noteq> 0) (take (Suc l) S) @ filter (\<lambda>x. x \<noteq> 0) (drop (Suc l) S)"
    by (metis append_take_drop_id filter_append)
  moreover have "filter (\<lambda>x. x \<noteq> 0) (take (Suc l) S) = take (Suc l) S"
    using all by (simp add: filter_id_conv)
  ultimately have "Suc l \<le> rank_of S"
    using l by (simp add: rank_of_def)
  with l show False by simp
qed

lemma rank_of_le: "rank_of S \<le> length S"
  by (simp add: rank_of_def)

lemma exact_svd_shapes:
  "exact_svd n A U S Vt \<Longrightarrow> is_mat n n A"
  "exact_svd n A U S Vt \<Longrightarrow> is_mat n n U"
  "exact_svd n A U S Vt \<Longrightarrow> length S = n"
  "exact_svd n A U S Vt \<Longrightarrow> is_mat n n Vt"
  unfolding exact_svd_def svd_shapes_def by blast+

lemma errors_nth:
  assumes "1 \<le> k" and "k \<le> 10"
  shows "map f [1..<11] ! (k - 1) = f k"
proof -
  from assms have "k - 1 < length [1..<11::nat]"
    by (simp del: upt_Suc)
  moreover from assms have "[1..<11] ! (k - 1) = k"
    by (simp add: nth_upt del: upt_Suc)
  ultimately show ?thesis
    by (simp only: nth_map)
qed

lemma low_facts:
  "length low_S = 10" "singular_values low_S" "rank_of low_S = 3"
  "rand demo_low (seed demo_low 0) 10 10 = (diag low_S, 1)"
  "svd demo_low (diag low_S) = Inr (ident 10, low_S, ident 10)"
proof -
  show l: "length low_S = 10" by (simp add: low_S_def)
  show "singular_values low_S" by (simp add: singular_values_def low_S_def)
  show "rank_of low_S = 3" by (simp add: rank_of_def low_S_def)
  show "rand demo_low (seed demo_low 0) 10 10 = (diag low_S, 1)"
    by (simp add: demo_low_def) (simp add: demo_np_def)
  have "svd demo_low M = svd demo_np M" for M by (simp add: demo_low_def)
  then show "svd demo_low (diag low_S) = Inr (ident 10, low_S, ident 10)"
    using demo_svd [of low_S] l by simp
qed

section \<open>The error computation of the 10x10 cell\<close>

text \<open>
  Claim C3. Whatever the kernel's state, the cell draws \<open>A\<close> from the generator seeded with
  0, decomposes it, and runs the ranks 1 to 10 in increasing order: when the library returns
  arrays of the documented shapes the cell completes, \<open>ranks\<close> is the list 1, ..., 10,
  \<open>errors\<close> has exactly 10 entries, and the entry at index \<open>k - 1\<close> is the Frobenius norm of
  \<open>A - U[:, :k] @ diag(S[:k]) @ Vt[:k, :]\<close>.
\<close>

theorem cell_10x10_errors:
  assumes "rand np (seed np 0) 10 10 = (A, r)" and "is_mat 10 10 A"
    and "svd np A = Inr (U, S, Vt)"
    and "is_mat 10 10 U" and "length S = 10" and "is_mat 10 10 Vt"
  shows "\<exists>s' es. cell_10x10 np s = (None, s') \<and>
           v_A s' = Some A \<and> v_U s' = Some U \<and> v_S s' = Some S \<and> v_Vt s' = Some Vt \<and>
           v_ranks s' = Some [1, 2, 3, 4, 5, 6, 7, 8, 9, 10] \<and>
           v_errors s' = Some es \<and> length es = 10 \<and>
           (\<forall>k\<in>{1..10}. es ! (k - 1) =
              norm_fro (msub A (mm (mm (cols_upto k U) (diag (take k S))) (rows_upto k Vt))))"
proof -
  have upt: "[Suc 0..<11] = [Suc 0, 2, 3, 4, 5, 6, 7, 8, 9, 10]"
    by (simp add: upt_rec)
  obtain s' where s': "cell_10x10 np s = (None, s')"
    "v_A s' = Some A" "v_U s' = Some U" "v_S s' = Some S" "v_Vt s' = Some Vt"
    "v_ranks s' = Some [1..<11]" "v_errors s' = Some (map (approx_error A U S Vt) [1..<11])"
    using cell_10x10_run [OF assms, of s] by blast
  have nth: "map (approx_error A U S Vt) [1..<11] ! (k - 1) =
      norm_fro (msub A (mm (mm (cols_upto k U) (diag (take k S))) (rows_upto k Vt)))"
    if "k \<in> {1..10}" for k
  proof -
    from that have k: "1 \<le> k" "k \<le> 10" by simp_all
    then have "k - 1 < length [1..<11::nat]"
      by (simp del: upt_Suc)
    moreover from k have "[1..<11] ! (k - 1) = k"
      by (simp add: nth_upt del: upt_Suc)
    ultimately have "k - 1 < length [1..<11::nat]" and "[1..<11] ! (k - 1) = k" .
    then show ?thesis
      by (simp only: nth_map approx_error_def approx_def)
  qed
  show ?thesis
    using s' nth by (intro exI [of _ s'] exI [of _ "map (approx_error A U S Vt) [1..<11]"])
      (simp add: upt)
qed

text \<open>The hypotheses of C3 hold for the stand-in library, on a kernel just started.\<close>

theorem cell_10x10_errors_witness:
  "rand demo_np (seed demo_np 0) 10 10 = (diag (demo_S 10), 1) \<and>
   is_mat 10 10 (diag (demo_S 10)) \<and>
   svd demo_np (diag (demo_S 10)) = Inr (ident 10, demo_S 10, ident 10) \<and>
   is_mat 10 10 (ident 10) \<and> length (demo_S 10) = 10 \<and>
   (\<exists>s' es. cell_10x10 demo_np (fresh 5 :: demo_kernel) = (None, s') \<and>
           v_A s' = Some (diag (demo_S 10)) \<and> v_U s' = Some (ident 10) \<and>
           v_S s' = Some (demo_S 10) \<and> v_Vt s' = Some (ident 10) \<and>
           v_ranks s' = Some [1, 2, 3, 4, 5, 6, 7, 8, 9, 10] \<and>
           v_errors s' = Some es \<and> length es = 10 \<and>
           es ! 0 = norm_fro (msub (diag (demo_S 10))
              (mm (mm (cols_upto 1 (ident 10)) (diag (take 1 (demo_S 10)))) (rows_upto 1 (ident 10)))))"
proof -
  have l: "length (demo_S 10) = 10" by (simp add: demo_S_def)
  have 1: "rand demo_np (seed demo_np 0) 10 10 = (diag (demo_S 10), 1)"
    by (simp add: demo_rand) (simp add: demo_np_def)
  have 2: "is_mat 10 10 (diag (demo_S 10))"
    using is_mat_diag [of "demo_S 10"] l by simp
  have 3: "svd demo_np (diag (demo_S 10)) = Inr (ident 10, demo_S 10, ident 10)"
    using demo_svd [of "demo_S 10"] l by simp
  have 4: "is_mat 10 10 (ident 10)" by (rule is_mat_ident)
  obtain s' es where run: "cell_10x10 demo_np (fresh 5 :: demo_kernel) = (None, s')"
      "v_A s' = Some (diag (demo_S 10))" "v_U s' = Some (ident 10)"
      "v_S s' = Some (demo_S 10)" "v_Vt s' = Some (ident 10)"
      "v_ranks s' = Some [1, 2, 3, 4, 5, 6, 7, 8, 9, 10]"
      "v_errors s' = Some es" "length es = 10"
    and all: "\<forall>k\<in>{1..10}. es ! (k - 1) = norm_fro (msub (diag (demo_S 10))
        (mm (mm (cols_upto k (ident 10)) (diag (take k (demo_S 10)))) (rows_upto k (ident 10))))"
    using cell_10x10_errors [OF 1 2 3 4 l 4, of "fresh 5 :: demo_kernel"] by blast
  have "es ! 0 = norm_fro (msub (diag (demo_S 10))
        (mm (mm (cols_upto 1 (ident 10)) (diag (take 1 (demo_S 10)))) (rows_upto 1 (ident 10))))"
    using bspec [OF all, of 1] by simp
  with run 1 2 3 4 l show ?thesis
    by blast
qed

section \<open>The loops leave the matrix and its factors alone\<close>

text \<open>
  Claim C9. The loop of the 5x5 cell and the loop of the 10x10 cell only read \<open>A\<close>, \<open>U\<close>,
  \<open>S\<close> and \<open>Vt\<close>: from every state of the kernel, and whether the loop completes or
  raises, the four variables hold afterwards exactly the arrays they held before the loop.
  Arrays are values here; a slice is a reading of its array and every product, difference
  and \<^verbatim>\<open>np.diag\<close> builds a new one, as numpy's do.
\<close>

theorem loops_do_not_modify_factors:
  "v_A (snd (for_each [1, 3] body_5x5 s)) = v_A s \<and>
   v_U (snd (for_each [1, 3] body_5x5 s)) = v_U s \<and>
   v_S (snd (for_each [1, 3] body_5x5 s)) = v_S s \<and>
   v_Vt (snd (for_each [1, 3] body_5x5 s)) = v_Vt s \<and>
   v_A (snd (loop_10x10 s)) = v_A s \<and>
   v_U (snd (loop_10x10 s)) = v_U s \<and>
   v_S (snd (loop_10x10 s)) = v_S s \<and>
   v_Vt (snd (loop_10x10 s)) = v_Vt s"
  by (intro conjI loop_5x5_frame loop_10x10_frame)

section \<open>The pipeline's data flow\<close>

text \<open>
  Claim C6. Whenever the cells from the web article to the question complete, in this
  order and from any state of the kernel, each stage has consumed the output of the one
  before: \<open>news_docs\<close> is what the web loader returned for the article's address,
  \<open>texts_chunks\<close> is what the splitter returned for \<open>news_docs\<close>, \<open>db\<close> is the store
  built from \<open>texts_chunks\<close> with the embedding model, the chain's retriever is over
  \<open>db\<close>, and \<open>result\<close> is what that chain returned for the query.
\<close>

theorem pipeline_dataflow:
  assumes "pipeline lc s = (None, s')"
  shows "\<exists>news chunks ef db l p res.
     load lc (WebBaseLoader bnext_url) = Inr news \<and> v_news_docs s' = Some news \<and>
     split_documents lc \<lparr>chunk_size = 200, chunk_overlap = 30\<rparr> news = Inr chunks \<and>
     v_texts_chunks s' = Some chunks \<and>
     HuggingFaceEmbeddings lc stella = Inr ef \<and> v_embedding_func s' = Some ef \<and>
     from_documents lc chunks ef = Inr db \<and> v_db s' = Some db \<and>
     v_llm s' = Some l \<and> v_prompt s' = Some p \<and>
     v_qa_chain s' =
       Some (from_chain_type l (str ''stuff'') (as_retriever db [''k'' \<mapsto> 2]) True p) \<and>
     invoke lc (from_chain_type l (str ''stuff'') (as_retriever db [''k'' \<mapsto> 2]) True p)
       [''query'' \<mapsto> query_text] = Inr res \<and>
     v_result s' = Some res"
proof -
  from assms obtain s1 s2 s3 s4 s5 where
    1: "cell_web lc s = (None, s1)" and 2: "cell_split lc s1 = (None, s2)" and
    3: "cell_embed lc s2 = (None, s3)" and 4: "cell_store lc s3 = (None, s4)" and
    5: "cell_llm lc s4 = (None, s5)" and 6: "cell_qa lc s5 = (None, s')"
    unfolding pipeline_def by (auto simp: block_Cons_None simp del: block.simps(2))
  from 1 obtain d ds where news: "load lc (WebBaseLoader bnext_url) = Inr (d # ds)"
    and s1: "v_news_docs s1 = Some (d # ds)"
    by (auto simp: cell_web_None)
  from 2 s1 obtain chunks where
    chunks: "split_documents lc \<lparr>chunk_size = 200, chunk_overlap = 30\<rparr> (d # ds) = Inr chunks"
    and s2: "v_news_docs s2 = Some (d # ds)" "v_texts_chunks s2 = Some chunks"
    by (auto simp: cell_split_None)
  from 3 s2 obtain ef where ef: "HuggingFaceEmbeddings lc stella = Inr ef"
    and s3: "v_news_docs s3 = Some (d # ds)" "v_texts_chunks s3 = Some chunks"
      "v_embedding_func s3 = Some ef"
    by (auto simp: cell_embed_None)
  from 4 s3 obtain db where db: "from_documents lc chunks ef = Inr db"
    and s4: "v_news_docs s4 = Some (d # ds)" "v_texts_chunks s4 = Some chunks"
      "v_embedding_func s4 = Some ef" "v_db s4 = Some db" "v_query s4 = Some query_text"
    by (auto simp: cell_store_None)
  from 5 s4 obtain l p where
    s5: "v_news_docs s5 = Some (d # ds)" "v_texts_chunks s5 = Some chunks"
      "v_embedding_func s5 = Some ef" "v_db s5 = Some db" "v_query s5 = Some query_text"
      "v_llm s5 = Some l" "v_prompt s5 = Some p"
    by (auto simp: cell_llm_None)
  from 6 s5 obtain res where
    res: "invoke lc (from_chain_type l (str ''stuff'') (as_retriever db [''k'' \<mapsto> 2]) True p)
       [''query'' \<mapsto> query_text] = Inr res"
    and s': "v_news_docs s' = Some (d # ds)" "v_texts_chunks s' = Some chunks"
      "v_embedding_func s' = Some ef" "v_db s' = Some db"
      "v_llm s' = Some l" "v_prompt s' = Some p"
      "v_qa_chain s' =
         Some (from_chain_type l (str ''stuff'') (as_retriever db [''k'' \<mapsto> 2]) True p)"
      "v_result s' = Some res"
    by (auto simp: cell_qa_None)
  from news chunks ef db res s' show ?thesis
    by blast
qed

text \<open>With the stand-in library the pipeline completes, on a kernel just started.\<close>

theorem pipeline_dataflow_witness:
  "pipeline demo_lc (fresh 0 :: demo_kernel) = (None, snd (pipeline demo_lc (fresh 0))) \<and>
   v_news_docs (snd (pipeline demo_lc (fresh 0 :: demo_kernel))) = Some [str ''What is an LLM''] \<and>
   v_texts_chunks (snd (pipeline demo_lc (fresh 0 :: demo_kernel))) = Some demo_chunks \<and>
   v_db (snd (pipeline demo_lc (fresh 0 :: demo_kernel))) = Some demo_chunks"
proof -
  let ?s' = "snd (pipeline demo_lc (fresh 0 :: demo_kernel))"
  have run: "pipeline demo_lc (fresh 0 :: demo_kernel) = (None, ?s')"
    using demo_pipeline_runs by (metis prod.collapse)
  have load: "load demo_lc (WebBaseLoader bnext_url) = Inr [str ''What is an LLM'']"
    by (simp add: demo_lc_def)
  have split: "split_documents demo_lc \<lparr>chunk_size = 200, chunk_overlap = 30\<rparr>
      [str ''What is an LLM''] = Inr demo_chunks"
    by (simp add: demo_lc_def demo_chunks_def str_def)
  have store: "from_documents demo_lc cs ef = Inr cs" for cs ef
    by (simp add: demo_lc_def)
  from pipeline_dataflow [OF run] load split store run show ?thesis
    by fastforce
qed

section \<open>A library's exception ends the cell\<close>



section \<open>The question-answering chain\<close>

text \<open>
  Claim C10. For every query bound in the kernel: the chain is built over the store's
  retriever with \<open>k = 2\<close> and asked to return its sources; when the chain returns, and
  the libraries keep their documented promises, then the cell completes, the result holds
  the answer under \<^verbatim>\<open>"result"\<close> and the retrieved documents under
  \<^verbatim>\<open>"source_documents"\<close>, these are what a search of the store for 2 documents
  returned, and the list printed last has at most 2 entries.
\<close>

theorem qa_chain_sources_at_most_two:
  assumes search: "search_contract lc" and qa: "retrieval_qa_contract lc"
    and vars: "v_llm s = Some l" "v_db s = Some db" "v_prompt s = Some p" "v_query s = Some q"
    and call: "invoke lc (from_chain_type l (str ''stuff'') (as_retriever db [''k'' \<mapsto> 2]) True p)
        [''query'' \<mapsto> q] = Inr res"
  shows "\<exists>s' c ans ds. cell_qa lc s = (None, s') \<and>
      v_qa_chain s' = Some c \<and> vectorstore (qa_retriever c) = db \<and>
      search_kwargs (qa_retriever c) ''k'' = Some 2 \<and> return_source_documents c \<and>
      v_result s' = Some res \<and>
      res ''result'' = Some (RStr ans) \<and> res ''source_documents'' = Some (RDocs ds) \<and>
      similarity_search lc db q 2 = Inr ds \<and> length ds \<le> 2 \<and>
      shown s' = shown s @ [Printed (RStr reply_label), Printed (RStr ans),
        Printed (RStr sources_label), Printed (RDocs ds)]"
proof -
  let ?c = "from_chain_type l (str ''stuff'') (as_retriever db [''k'' \<mapsto> 2]) True p"
  have c: "vectorstore (qa_retriever ?c) = db" "search_kwargs (qa_retriever ?c) ''k'' = Some 2"
    "return_source_documents ?c" "search_k (qa_retriever ?c) = 2"
    by (simp_all add: from_chain_type_def as_retriever_def search_k_def)
  from qa call obtain q' ans ds where
    "[''query'' \<mapsto> q] ''query'' = Some q'"
    and ds: "similarity_search lc (vectorstore (qa_retriever ?c)) q' (search_k (qa_retriever ?c)) = Inr ds"
    and res: "res ''result'' = Some (RStr ans)"
      "return_source_documents ?c \<longrightarrow> res ''source_documents'' = Some (RDocs ds)"
    unfolding retrieval_qa_contract_def by blast
  then have q': "q' = q" by simp
  from ds c q' have found: "similarity_search lc db q 2 = Inr ds" by simp
  with search have len: "length ds \<le> 2"
    unfolding search_contract_def by blast
  from res c have src: "res ''source_documents'' = Some (RDocs ds)" by simp
  let ?s' = "s\<lparr>v_qa_chain := Some ?c, v_result := Some res,
      shown := shown s @ [Printed (RStr reply_label), Printed (RStr ans),
        Printed (RStr sources_label), Printed (RDocs ds)]\<rparr>"
  have "cell_qa lc s = (None, ?s')"
    unfolding cell_qa_None using vars call res(1) src by blast
  with c found len res(1) src show ?thesis
    by (intro exI [of _ ?s'] exI [of _ ?c] exI [of _ ans] exI [of _ ds]) simp
qed

text \<open>The stand-in library keeps both promises, and its store holds three chunks.\<close>

theorem qa_chain_sources_at_most_two_witness:
  "search_contract demo_lc \<and> retrieval_qa_contract demo_lc \<and>
   v_llm demo_ready = Some 0 \<and> v_db demo_ready = Some demo_chunks \<and>
   v_query demo_ready = Some query_text \<and>
   (\<exists>s' ans ds. cell_qa demo_lc demo_ready = (None, s') \<and>
      similarity_search demo_lc demo_chunks query_text 2 = Inr ds \<and> length ds \<le> 2 \<and>
      shown s' = shown demo_ready @ [Printed (RStr reply_label), Printed (RStr ans),
        Printed (RStr sources_label), Printed (RDocs ds)])"
proof -
  let ?p = "\<lparr>template = template_text, input_variables = [str ''context'', str ''question'']\<rparr>"
  have vars: "v_llm demo_ready = Some 0" "v_db demo_ready = Some demo_chunks"
    "v_prompt demo_ready = Some ?p" "v_query demo_ready = Some query_text"
    by (simp_all add: demo_ready_def fresh_def)
  have call: "invoke demo_lc
      (from_chain_type 0 (str ''stuff'') (as_retriever demo_chunks [''k'' \<mapsto> 2]) True ?p)
      [''query'' \<mapsto> query_text] =
    Inr [''query'' \<mapsto> RStr query_text, ''result'' \<mapsto> RStr (str ''a language model''),
         ''source_documents'' \<mapsto> RDocs (take 2 demo_chunks)]"
    by (simp add: demo_lc_def from_chain_type_def as_retriever_def search_k_def)
  show ?thesis
    using qa_chain_sources_at_most_two [OF demo_search_contract demo_retrieval_qa_contract
        vars call]
      demo_search_contract demo_retrieval_qa_contract vars
    by blast
qed

section \<open>The two notebooks do not interfere\<close>

text \<open>
  Claim C8. Even in one kernel, neither notebook reads or writes a variable of the other.
  Running the RAG notebook, with any library and to any outcome, leaves the rank
  notebook's part of the kernel as it was, and the other way round. From two kernels that
  agree on a notebook's own part, that notebook ends with the same outcome and the same
  own part, whatever the other notebook's part holds. So running one notebook first
  changes nothing of what the other then computes, prints or raises.
\<close>

theorem notebooks_do_not_interfere:
  "rank_view (snd (rag_notebook lc s)) = rank_view s \<and>
   rag_view (snd (rank_notebook np s)) = rag_view s \<and>
   (rank_view s = rank_view s' \<longrightarrow>
      fst (rank_notebook np s) = fst (rank_notebook np s') \<and>
      rank_view (snd (rank_notebook np s)) = rank_view (snd (rank_notebook np s'))) \<and>
   (rag_view s = rag_view s' \<longrightarrow>
      fst (rag_notebook lc s) = fst (rag_notebook lc s') \<and>
      rag_view (snd (rag_notebook lc s)) = rag_view (snd (rag_notebook lc s'))) \<and>
   fst (rank_notebook np (snd (rag_notebook lc s))) = fst (rank_notebook np s) \<and>
   rank_view (snd (rank_notebook np (snd (rag_notebook lc s)))) =
     rank_view (snd (rank_notebook np s)) \<and>
   fst (rag_notebook lc (snd (rank_notebook np s))) = fst (rag_notebook lc s) \<and>
   rag_view (snd (rag_notebook lc (snd (rank_notebook np s)))) =
     rag_view (snd (rag_notebook lc s))"
proof -
  have rag_keeps: "rank_view (snd (rag_notebook lc s)) = rank_view s" for s :: "('a, 'b, 'c, 'd, 'e) kernel"
    using commutes_untouched [of with_rank s "rag_notebook lc", OF rag_notebook_commutes with_rank_self]
      views_with_rank(1) [of s "snd (rag_notebook lc s)"]
    by simp
  have rank_keeps: "rag_view (snd (rank_notebook np s)) = rag_view s" for s :: "('a, 'b, 'c, 'd, 'e) kernel"
    using commutes_untouched [of with_rag s "rank_notebook np", OF rank_notebook_commutes with_rag_self]
      views_with_rag(1) [of s "snd (rank_notebook np s)"]
    by simp
  have rank_low: "fst (rank_notebook np s) = fst (rank_notebook np t) \<and>
      rank_view (snd (rank_notebook np s)) = rank_view (snd (rank_notebook np t))"
    if "rank_view s = rank_view t" for s t :: "('a, 'b, 'c, 'd, 'e) kernel"
  proof -
    have "rank_notebook np (with_rag t s) =
        (fst (rank_notebook np s), with_rag t (snd (rank_notebook np s)))"
      using rank_notebook_commutes [of t np] by (simp add: commutes_with_def)
    then have "rank_notebook np t =
        (fst (rank_notebook np s), with_rag t (snd (rank_notebook np s)))"
      using same_rank_view [OF that] by simp
    then show ?thesis
      by (simp add: views_with_rag)
  qed
  have rag_low: "fst (rag_notebook lc s) = fst (rag_notebook lc t) \<and>
      rag_view (snd (rag_notebook lc s)) = rag_view (snd (rag_notebook lc t))"
    if "rag_view s = rag_view t" for s t :: "('a, 'b, 'c, 'd, 'e) kernel"
  proof -
    have "rag_notebook lc (with_rank t s) =
        (fst (rag_notebook lc s), with_rank t (snd (rag_notebook lc s)))"
      using rag_notebook_commutes [of t lc] by (simp add: commutes_with_def)
    then have "rag_notebook lc t =
        (fst (rag_notebook lc s), with_rank t (snd (rag_notebook lc s)))"
      using same_rag_view [OF that] by simp
    then show ?thesis
      by (simp add: views_with_rank)
  qed
  show ?thesis
    using rag_keeps [of s] rank_keeps [of s] rank_low [of s s'] rag_low [of s s']
      rank_low [OF rag_keeps [of s]] rag_low [OF rank_keeps [of s]]
    by simp
qed

text \<open>
  Two kernels that agree on the rank notebook's part and differ on the other, and two that
  agree on the RAG notebook's part and differ on the other.
\<close>

theorem notebooks_do_not_interfere_witness:
  "rank_view (fresh 0 :: demo_kernel) = rank_view demo_ready \<and>
   fst (rank_notebook demo_np (fresh 0 :: demo_kernel)) = fst (rank_notebook demo_np demo_ready) \<and>
   rank_view (snd (rank_notebook demo_np (fresh 0 :: demo_kernel))) =
     rank_view (snd (rank_notebook demo_np demo_ready)) \<and>
   rag_view demo_ready = rag_view (demo_ready\<lparr>rng := 9, v_A := Some [[1]]\<rparr>) \<and>
   fst (rag_notebook demo_lc demo_ready) =
     fst (rag_notebook demo_lc (demo_ready\<lparr>rng := 9, v_A := Some [[1]]\<rparr>)) \<and>
   rag_view (snd (rag_notebook demo_lc demo_ready)) =
     rag_view (snd (rag_notebook demo_lc (demo_ready\<lparr>rng := 9, v_A := Some [[1]]\<rparr>)))"
proof -
  have 1: "rank_view (fresh 0 :: demo_kernel) = rank_view demo_ready"
    by (simp add: rank_view_def demo_ready_def fresh_def)
  have 2: "rag_view demo_ready = rag_view (demo_ready\<lparr>rng := 9, v_A := Some [[1]]\<rparr>)"
    by (simp add: rag_view_def)
  show ?thesis
    using notebooks_do_not_interfere [of demo_lc "fresh 0 :: demo_kernel" demo_np demo_ready]
      notebooks_do_not_interfere [of demo_lc demo_ready demo_np
        "demo_ready\<lparr>rng := 9, v_A := Some [[1]]\<rparr>"] 1 2
    by blast
qed

section \<open>Two runs of a cell give the same numbers\<close>

text \<open>
  Claim C5. Each cell seeds the generator with 0 before it draws, so nothing of the state
  it starts from reaches its numbers. For any two kernels, whatever they hold: the two runs
  of a cell end alike (both complete, or both raise the same exception), \<open>A\<close> is the same
  matrix in both, what the two runs print and plot is the same up to the precision the
  arrays are printed with, and when the runs complete \<open>U\<close>, \<open>S\<close>, \<open>Vt\<close>, \<open>S_k\<close>, \<open>A_k\<close>
  and, in the 10x10 cell, \<open>error\<close>, \<open>errors\<close> and \<open>ranks\<close> are the same too. The library is
  a function here: a decomposition that gave two answers for one matrix is outside it.
\<close>

theorem cells_are_deterministic:
  fixes s t :: "('r, 'd, 'e, 'v, 'l) kernel"
  shows
  "fst (cell_5x5 np s) = fst (cell_5x5 np t) \<and>
   v_A (snd (cell_5x5 np s)) = v_A (snd (cell_5x5 np t)) \<and>
   map payload (new_out (cell_5x5 np) s) = map payload (new_out (cell_5x5 np) t) \<and>
   (fst (cell_5x5 np s) = None \<longrightarrow>
      v_U (snd (cell_5x5 np s)) = v_U (snd (cell_5x5 np t)) \<and>
      v_S (snd (cell_5x5 np s)) = v_S (snd (cell_5x5 np t)) \<and>
      v_Vt (snd (cell_5x5 np s)) = v_Vt (snd (cell_5x5 np t)) \<and>
      v_S_k (snd (cell_5x5 np s)) = v_S_k (snd (cell_5x5 np t)) \<and>
      v_A_k (snd (cell_5x5 np s)) = v_A_k (snd (cell_5x5 np t))) \<and>
   fst (cell_10x10 np s) = fst (cell_10x10 np t) \<and>
   v_A (snd (cell_10x10 np s)) = v_A (snd (cell_10x10 np t)) \<and>
   map payload (new_out (cell_10x10 np) s) = map payload (new_out (cell_10x10 np) t) \<and>
   (fst (cell_10x10 np s) = None \<longrightarrow>
      v_U (snd (cell_10x10 np s)) = v_U (snd (cell_10x10 np t)) \<and>
      v_S (snd (cell_10x10 np s)) = v_S (snd (cell_10x10 np t)) \<and>
      v_Vt (snd (cell_10x10 np s)) = v_Vt (snd (cell_10x10 np t)) \<and>
      v_S_k (snd (cell_10x10 np s)) = v_S_k (snd (cell_10x10 np t)) \<and>
      v_A_k (snd (cell_10x10 np s)) = v_A_k (snd (cell_10x10 np t)) \<and>
      v_error (snd (cell_10x10 np s)) = v_error (snd (cell_10x10 np t)) \<and>
      v_errors (snd (cell_10x10 np s)) = v_errors (snd (cell_10x10 np t)) \<and>
      v_ranks (snd (cell_10x10 np s)) = v_ranks (snd (cell_10x10 np t)))"
proof -
  let ?n = "length (out s)" and ?m = "length (out t)"
  have five: "fst (cell_5x5 np s) = fst (cell_5x5 np t) \<and>
      (if fst (cell_5x5 np s) = None
       then after_step ?n ?m (snd (cell_5x5 np s)) (snd (cell_5x5 np t))
       else after_rand ?n ?m (snd (cell_5x5 np s)) (snd (cell_5x5 np t)))"
    using cell_5x5_runs [of ?n ?m np] same_out_start [of s t] unfolding both_runs_def by blast
  have ten: "fst (cell_10x10 np s) = fst (cell_10x10 np t) \<and>
      (if fst (cell_10x10 np s) = None
       then after_round ?n ?m (snd (cell_10x10 np s)) (snd (cell_10x10 np t))
       else after_rand ?n ?m (snd (cell_10x10 np s)) (snd (cell_10x10 np t)))"
    using cell_10x10_runs [of ?n ?m np] same_out_start [of s t] unfolding both_runs_def by blast
  from five have five_out: "same_out ?n ?m (snd (cell_5x5 np s)) (snd (cell_5x5 np t))"
    by (simp add: after_step_def after_rand_def split: if_splits)
  from ten have ten_out: "same_out ?n ?m (snd (cell_10x10 np s)) (snd (cell_10x10 np t))"
    by (simp add: after_round_def after_rand_def split: if_splits)
  show ?thesis
    using five ten same_out_new [OF five_out] same_out_new [OF ten_out]
    by (auto simp: after_step_def after_round_def after_rand_def same_factors_def same_step_def
        same_errors_def split: if_splits)
qed

text \<open>
  With the stand-in library both cells complete, from a kernel just started and from one
  that has been used.
\<close>

theorem cells_are_deterministic_witness:
  "fst (cell_5x5 demo_np (fresh 0 :: demo_kernel)) = None \<and>
   fst (cell_10x10 demo_np (fresh 0 :: demo_kernel)) = None \<and>
   fst (cell_5x5 demo_np demo_used) = None \<and>
   fst (cell_10x10 demo_np demo_used) = None \<and>
   v_A (snd (cell_5x5 demo_np demo_used)) = Some (diag (demo_S 5)) \<and>
   v_A_k (snd (cell_5x5 demo_np (fresh 0 :: demo_kernel))) = v_A_k (snd (cell_5x5 demo_np demo_used)) \<and>
   v_A_k (snd (cell_10x10 demo_np (fresh 0 :: demo_kernel))) = v_A_k (snd (cell_10x10 demo_np demo_used)) \<and>
   v_errors (snd (cell_10x10 demo_np (fresh 0 :: demo_kernel))) =
     v_errors (snd (cell_10x10 demo_np demo_used))"
proof -
  have five: "fst (cell_5x5 demo_np s) = None" "v_A (snd (cell_5x5 demo_np s)) = Some (diag (demo_S 5))"
    for s :: demo_kernel
    using cell_5x5_run [OF demo_np_run(1) demo_np_run(2) is_mat_ident demo_np_run(4) is_mat_ident,
        of s]
    by simp_all
  have ten: "fst (cell_10x10 demo_np s) = None" for s :: demo_kernel
    using cell_10x10_run [OF demo_np_run(1) demo_np_run(3) demo_np_run(2) is_mat_ident
        demo_np_run(4) is_mat_ident, of s]
    by auto
  show ?thesis
    using cells_are_deterministic [of demo_np "fresh 0 :: demo_kernel" demo_used]
      five ten
    by simp
qed

section \<open>The approximation of rank k\<close>

text \<open>
  Claim C4. Both loops open every round with the same three statements, which bind \<open>k\<close>,
  \<open>S_k\<close> and \<open>A_k\<close>. With factors of the shapes the decomposition of a square matrix
  has, and \<open>k\<close> from 1 to the size of the matrix, the round of either loop completes
  and leaves in \<open>A_k\<close> the product \<open>U[:, :k] @ diag(S[:k]) @ Vt[:k, :]\<close>, and that
  product has rank at most \<open>k\<close>: in exact arithmetic it is a matrix with \<open>k\<close> columns
  times a matrix with \<open>k\<close> rows.
\<close>

theorem approximations_have_rank_at_most_k:
  assumes "v_U s = Some U" and "v_S s = Some S" and "v_Vt s = Some Vt"
    and "svd_shapes n U S Vt" and "0 < k" and "k \<le> n"
  shows "rank_at_most k (mm (mm (cols_upto k U) (diag (take k S))) (rows_upto k Vt)) \<and>
    (\<exists>s'. body_5x5 k s = (None, s') \<and>
       v_A_k s' = Some (mm (mm (cols_upto k U) (diag (take k S))) (rows_upto k Vt))) \<and>
    (\<forall>A es. v_A s = Some A \<and> is_mat n n A \<and> v_errors s = Some es \<longrightarrow>
       (\<exists>s'. body_10x10 k s = (None, s') \<and>
          v_A_k s' = Some (mm (mm (cols_upto k U) (diag (take k S))) (rows_upto k Vt))))"
proof -
  from assms(4) have U: "is_mat n n U" and S: "length S = min n n" and Vt: "is_mat n n Vt"
    by (simp_all add: svd_shapes_def)
  from assms(5,6) have k: "0 < k" "k \<le> min n n" by simp_all
  have "rank_at_most k (approx U S Vt k)"
    by (rule rank_at_most_approx [OF U S Vt k])
  moreover have "\<exists>s'. body_5x5 k s = (None, s') \<and> v_A_k s' = Some (approx U S Vt k)"
    using body_5x5_run [OF assms(1-3) U S Vt k] by simp
  moreover have "\<exists>s'. body_10x10 k s = (None, s') \<and> v_A_k s' = Some (approx U S Vt k)"
    if "v_A s = Some A" "is_mat n n A" "v_errors s = Some es" for A es
    using body_10x10_run [OF that(1) assms(1-3) that(3) that(2) U S Vt k] by simp
  ultimately show ?thesis
    unfolding approx_def by blast
qed

text \<open>A round with \<open>k = 3\<close> on a decomposed 5x5 matrix.\<close>

theorem approximations_have_rank_at_most_k_witness:
  "v_U demo_decomposed = Some (ident 5) \<and> v_S demo_decomposed = Some (demo_S 5) \<and>
   v_Vt demo_decomposed = Some (ident 5) \<and> svd_shapes 5 (ident 5) (demo_S 5) (ident 5) \<and>
   v_A demo_decomposed = Some (diag (demo_S 5)) \<and> is_mat 5 5 (diag (demo_S 5)) \<and>
   v_errors demo_decomposed = Some [] \<and>
   rank_at_most 3 (mm (mm (cols_upto 3 (ident 5)) (diag (take 3 (demo_S 5)))) (rows_upto 3 (ident 5))) \<and>
   (\<exists>s'. body_5x5 3 demo_decomposed = (None, s') \<and>
      v_A_k s' = Some (mm (mm (cols_upto 3 (ident 5)) (diag (take 3 (demo_S 5)))) (rows_upto 3 (ident 5)))) \<and>
   (\<exists>s'. body_10x10 3 demo_decomposed = (None, s') \<and>
      v_A_k s' = Some (mm (mm (cols_upto 3 (ident 5)) (diag (take 3 (demo_S 5)))) (rows_upto 3 (ident 5))))"
proof -
  have vars: "v_U demo_decomposed = Some (ident 5)" "v_S demo_decomposed = Some (demo_S 5)"
    "v_Vt demo_decomposed = Some (ident 5)" "v_A demo_decomposed = Some (diag (demo_S 5))"
    "v_errors demo_decomposed = Some []"
    by (simp_all add: demo_decomposed_def)
  have shapes: "svd_shapes 5 (ident 5) (demo_S 5) (ident 5)"
    by (simp add: svd_shapes_def is_mat_ident demo_np_run(4))
  have A: "is_mat 5 5 (diag (demo_S 5))" by (rule demo_np_run(3))
  show ?thesis
    using approximations_have_rank_at_most_k [OF vars(1-3) shapes, of 3] vars shapes A
    by simp
qed

section \<open>The errors do not increase with the rank\<close>



section \<open>The error at the rank of the matrix, in exact arithmetic\<close>

text \<open>
  In exact arithmetic, with an exact decomposition whose singular values are not negative
  and in descending order: the error recorded for the rank of the matrix, the number of
  its singular values that are not zero, is zero; the approximation of rank 10 is the
  matrix itself, and the last error is zero. What the float64 values are, to which
  "approximately zero" refers, is outside this statement.
\<close>

theorem error_at_rank_is_zero:
  assumes rand: "rand np (seed np 0) 10 10 = (A, r)" and svd: "svd np A = Inr (U, S, Vt)"
    and exact: "exact_svd 10 A U S Vt" and sv: "singular_values S"
  shows "\<exists>s' es. cell_10x10 np s = (None, s') \<and> v_errors s' = Some es \<and> length es = 10 \<and>
    (0 < rank_of S \<longrightarrow> es ! (rank_of S - 1) = 0) \<and>
    mm (mm (cols_upto 10 U) (diag (take 10 S))) (rows_upto 10 Vt) = A \<and> last es = 0"
proof -
  let ?es = "map (approx_error A U S Vt) [1..<11]"
  note shapes = exact_svd_shapes [OF exact]
  obtain s' where run: "cell_10x10 np s = (None, s')" and es: "v_errors s' = Some ?es"
    using cell_10x10_run [OF rand shapes(1) svd shapes(2-4), of s] by blast
  have rank: "rank_of S \<le> 10"
    using rank_of_le [of S] shapes(3) by simp
  have at_rank: "?es ! (rank_of S - 1) = 0" if "0 < rank_of S"
  proof -
    from that rank have k: "1 \<le> rank_of S" "rank_of S \<le> 10" by simp_all
    have "approx_error A U S Vt (rank_of S) = 0"
      using zero_from_rank [OF sv] shapes(3) by (intro approx_error_zero [OF exact that rank]) simp
    then show ?thesis
      by (simp only: errors_nth [OF k])
  qed
  have full: "approx U S Vt 10 = A"
    using approx_full [OF shapes(2-4)] exact by (simp add: exact_svd_def)
  have "approx_error A U S Vt 10 = 0"
    by (rule approx_error_zero [OF exact]) simp_all
  moreover have "last ?es = ?es ! (10 - 1)"
    by (simp add: last_conv_nth del: upt_Suc)
  ultimately have last: "last ?es = 0"
    using errors_nth [of 10 "approx_error A U S Vt"] by simp
  from run es at_rank full last show ?thesis
    by (intro exI [of _ s'] exI [of _ ?es]) (simp add: approx_def)
qed

text \<open>A matrix of rank 3: the third error is zero, and so is the last.\<close>

theorem error_at_rank_is_zero_witness:
  "rand demo_low (seed demo_low 0) 10 10 = (diag low_S, 1) \<and>
   svd demo_low (diag low_S) = Inr (ident 10, low_S, ident 10) \<and>
   exact_svd 10 (diag low_S) (ident 10) low_S (ident 10) \<and> singular_values low_S \<and>
   rank_of low_S = 3 \<and>
   (\<exists>s' es. cell_10x10 demo_low (fresh 0 :: demo_kernel) = (None, s') \<and> v_errors s' = Some es \<and>
      length es = 10 \<and> es ! 2 = 0 \<and> last es = 0)"
proof -
  have exact: "exact_svd 10 (diag low_S) (ident 10) low_S (ident 10)"
    by (rule diag_exact_svd [OF low_facts(1)]) simp
  from error_at_rank_is_zero [OF low_facts(4,5) exact low_facts(2), of "fresh 0 :: demo_kernel"]
  obtain s' es where run: "cell_10x10 demo_low (fresh 0 :: demo_kernel) = (None, s')"
      "v_errors s' = Some es" "length es = 10"
    and at_rank: "0 < rank_of low_S \<longrightarrow> es ! (rank_of low_S - 1) = 0"
    and full: "mm (mm (cols_upto 10 (ident 10)) (diag (take 10 low_S))) (rows_upto 10 (ident 10)) =
      diag low_S"
    and last: "last es = 0"
    by (elim exE conjE)
  from at_rank have "es ! 2 = 0" by (simp add: low_facts(3))
  with run last low_facts exact show ?thesis
    by blast
qed

end
